theory Spec2Isabelle
  imports Complex_Main "HOL-Library.Product_Lexorder"
begin

section \<open>Scalars and 3-vectors\<close>

text \<open>
  The source computes with \<^verbatim>\<open>Scalar = float\<close> and Eigen 3-vectors. Scalars are
  modelled as real numbers (exact arithmetic: no rounding, no NaN), an Eigen
  \<^verbatim>\<open>Matrix<Scalar,3,1>\<close> as a triple of reals.
\<close>

type_synonym vec3 = "real \<times> real \<times> real"

fun vadd :: "vec3 \<Rightarrow> vec3 \<Rightarrow> vec3" where
  "vadd (ax, ay, az) (bx, by, bz) = (ax + bx, ay + by, az + bz)"

fun vsub :: "vec3 \<Rightarrow> vec3 \<Rightarrow> vec3" where
  "vsub (ax, ay, az) (bx, by, bz) = (ax - bx, ay - by, az - bz)"

fun vscale :: "real \<Rightarrow> vec3 \<Rightarrow> vec3" where
  "vscale k (ax, ay, az) = (k * ax, k * ay, k * az)"

fun vdiv :: "vec3 \<Rightarrow> real \<Rightarrow> vec3" where
  "vdiv (ax, ay, az) k = (ax / k, ay / k, az / k)"

fun dot :: "vec3 \<Rightarrow> vec3 \<Rightarrow> real" where
  "dot (ax, ay, az) (bx, by, bz) = ax * bx + ay * by + az * bz"

fun cross :: "vec3 \<Rightarrow> vec3 \<Rightarrow> vec3" where
  "cross (ax, ay, az) (bx, by, bz) =
     (ay * bz - az * by, az * bx - ax * bz, ax * by - ay * bx)"

definition norm3 :: "vec3 \<Rightarrow> real" where
  "norm3 v = sqrt (dot v v)"

text \<open>
  Eigen's \<^verbatim>\<open>normalized()\<close> divides by the norm. On the zero vector the real
  model returns the zero vector (HOL's \<open>x / 0 = 0\<close>), which is what Eigen 3.3 and
  later return; theorems about a normalised direction assume a non-zero operand.
\<close>

definition normalized :: "vec3 \<Rightarrow> vec3" where
  "normalized v = vdiv v (norm3 v)"

text \<open>\<^verbatim>\<open>Eigen::AngleAxisf(angle, UnitZ()) * v\<close>: rotation about the global z axis.\<close>

fun rotateZ :: "real \<Rightarrow> vec3 \<Rightarrow> vec3" where
  "rotateZ angle (x, y, z) =
     (cos angle * x - sin angle * y, sin angle * x + cos angle * y, z)"

section \<open>Primitives and points\<close>

datatype tag = GID | DIR_GID | STATUS

datatype point_tag = PNT_GID | PNT_USER_ID1

datatype error = IndexOutOfRange

definition EXIT_SUCCESS :: int where
  "EXIT_SUCCESS = 0"

definition EXIT_FAILURE :: int where
  "EXIT_FAILURE = 1"

text \<open>
  \<^verbatim>\<open>LinePrimitive\<close>: position and direction are the two halves of
  \<^verbatim>\<open>_coeffs\<close>; the tags and the extent cache \<^verbatim>\<open>_extents\<close> come from the parent
  class. The cache is \<open>None\<close> while \<^verbatim>\<open>isUpdated()\<close> is false and \<open>Some e\<close> once
  \<^verbatim>\<open>update(e)\<close> has run.
\<close>

record LinePrimitive =
  pos :: vec3
  dir :: vec3
  tags :: "tag \<Rightarrow> int"
  extents :: "vec3 list option"

record PointPrimitive =
  point_pos :: vec3
  point_tags :: "point_tag \<Rightarrow> int"

definition getTag :: "LinePrimitive \<Rightarrow> tag \<Rightarrow> int" where
  "getTag p t = tags p t"

definition setTag :: "LinePrimitive \<Rightarrow> tag \<Rightarrow> int \<Rightarrow> LinePrimitive" where
  "setTag p t v = p\<lparr>tags := (tags p)(t := v)\<rparr>"

section \<open>Geometry: distance and projection\<close>

definition getDistance :: "LinePrimitive \<Rightarrow> vec3 \<Rightarrow> real" where
  "getDistance this point = norm3 (cross (vsub (pos this) point) (dir this))"

text \<open>
  \<^verbatim>\<open>projectPoint\<close> pads position, direction and point with a fourth coordinate 0,
  so its 4-vector dot products are the 3-vector ones.
\<close>

definition projectPoint :: "LinePrimitive \<Rightarrow> vec3 \<Rightarrow> vec3" where
  "projectPoint this point =
     (let line_pt = pos this;
          line_dir = dir this;
          k = (dot point line_dir - dot line_pt line_dir) / dot line_dir line_dir
      in vadd line_pt (vscale k line_dir))"

section \<open>Extent estimation\<close>

text \<open>
  The point ids the selection loop visits: \<^verbatim>\<open>(*indices_arg)[i]\<close> when indices are
  given, \<^verbatim>\<open>i\<close> itself otherwise, for \<^verbatim>\<open>i\<close> from 0 to \<^verbatim>\<open>stop_at\<close>.
\<close>

definition visited_pids :: "PointPrimitive list \<Rightarrow> int list option \<Rightarrow> int list" where
  "visited_pids cloud indices_arg =
     (case indices_arg of None \<Rightarrow> map int [0..<length cloud] | Some ind \<Rightarrow> ind)"

text \<open>
  The inlier selection loop. \<^verbatim>\<open>cloud[pid]\<close> with \<^verbatim>\<open>pid\<close> outside the cloud is undefined
  behaviour in the source; the model stops with \<open>IndexOutOfRange\<close> there.
\<close>

fun select_inliers ::
  "LinePrimitive \<Rightarrow> PointPrimitive list \<Rightarrow> real \<Rightarrow> int list \<Rightarrow> int list \<Rightarrow> error + int list" where
  "select_inliers this cloud threshold [] inliers = Inr inliers"
| "select_inliers this cloud threshold (pid # rest) inliers =
     (if pid < 0 \<or> int (length cloud) \<le> pid then Inl IndexOutOfRange
      else if getDistance this (point_pos (cloud ! nat pid)) < threshold
        then select_inliers this cloud threshold rest (inliers @ [pid])
        else select_inliers this cloud threshold rest inliers)"

text \<open>
  The min/max scan over the projected cloud, from \<^verbatim>\<open>point_id = 1\<close>. The state is
  \<^verbatim>\<open>(min_dist, min_id, max_dist, max_id)\<close>.
\<close>

fun minmax_scan ::
  "vec3 \<Rightarrow> vec3 \<Rightarrow> vec3 list \<Rightarrow> nat \<Rightarrow> real \<times> nat \<times> real \<times> nat \<Rightarrow> real \<times> nat \<times> real \<times> nat" where
  "minmax_scan p0 line_dir [] point_id st = st"
| "minmax_scan p0 line_dir (p1 # rest) point_id (min_dist, min_id, max_dist, max_id) =
     (let p0p1 = vsub p1 p0;
          dist = dot p0p1 (vadd p0 line_dir)
      in if dist < min_dist
           then minmax_scan p0 line_dir rest (Suc point_id) (dist, point_id, max_dist, max_id)
         else if dist > max_dist
           then minmax_scan p0 line_dir rest (Suc point_id) (min_dist, min_id, dist, point_id)
         else minmax_scan p0 line_dir rest (Suc point_id) (min_dist, min_id, max_dist, max_id))"

text \<open>
  \<^verbatim>\<open>getExtent\<close> returns its status code, the output container \<^verbatim>\<open>minMax\<close> and the
  primitive with its (mutable) extent cache. The parameter
  \<^verbatim>\<open>force_axis_aligned\<close> is not read by the source and is left out.
\<close>

definition getExtent ::
  "LinePrimitive \<Rightarrow> vec3 list \<Rightarrow> PointPrimitive list \<Rightarrow> real \<Rightarrow> int list option
     \<Rightarrow> error + (int \<times> vec3 list \<times> LinePrimitive)" where
  "getExtent this minMax cloud threshold indices_arg =
     (case extents this of
        Some e \<Rightarrow> Inr (0, e, this)
      | None \<Rightarrow>
         (case select_inliers this cloud threshold (visited_pids cloud indices_arg) [] of
            Inl er \<Rightarrow> Inl er
          | Inr inliers \<Rightarrow>
             if inliers = [] then Inr (EXIT_FAILURE, minMax, this)
             else
               (let on_line_cloud =
                      map (\<lambda>pid. projectPoint this (point_pos (cloud ! nat pid))) inliers;
                    p0 = on_line_cloud ! 0;
                    line_dir = dir this
                in case minmax_scan p0 line_dir (tl on_line_cloud) 1 (0, 0, 0, 0) of
                     (min_dist, min_id, max_dist, max_id) \<Rightarrow>
                       (let minMax' = [on_line_cloud ! min_id, on_line_cloud ! max_id]
                        in Inr (EXIT_SUCCESS, minMax', this\<lparr>extents := Some minMax'\<rparr>)))))"

section \<open>The extent-consuming draw helper\<close>

definition max_it :: int where
  "max_it = 10"

text \<open>
  The retry loop of \<^verbatim>\<open>draw\<close>:
  \<^verbatim>\<open>do { err = line.getExtent(minMax, cloud, tmp_radius, indices); tmp_radius *= 2.f; }
  while ( (minMax.size() < 2) && (++it < max_it) );\<close>
  The loop returns the last status code, the output container, the counter and the
  line (whose cache \<^verbatim>\<open>getExtent\<close> may have written).
\<close>

function draw_loop ::
  "LinePrimitive \<Rightarrow> PointPrimitive list \<Rightarrow> int list option \<Rightarrow> vec3 list \<Rightarrow> int \<Rightarrow> real
     \<Rightarrow> error + (int \<times> vec3 list \<times> int \<times> LinePrimitive)" where
  "draw_loop line cloud indices minMax it tmp_radius =
     (case getExtent line minMax cloud tmp_radius indices of
        Inl er \<Rightarrow> Inl er
      | Inr (err, minMax', line') \<Rightarrow>
          (if length minMax' < 2
           then (if it + 1 < max_it
                 then draw_loop line' cloud indices minMax' (it + 1) (tmp_radius * 2)
                 else Inr (err, minMax', it + 1, line'))
           else Inr (err, minMax', it, line')))"
  by pat_completeness auto
termination
  by (relation "measure (\<lambda>(line, cloud, indices, minMax, it, tmp_radius). nat (max_it - it))")
     auto

text \<open>
  The static overload \<^verbatim>\<open>draw(ps, vptr, name, r, g, b, viewport_id)\<close>: it refuses
  anything but two points, and hands two points to the visualizer's \<^verbatim>\<open>addLine\<close>. The
  visualizer is an external library; the model returns the segment it is given.
\<close>

definition draw_endpoints :: "vec3 list \<Rightarrow> (vec3 \<times> vec3) option" where
  "draw_endpoints ps = (if length ps \<noteq> 2 then None else Some (ps ! 0, ps ! 1))"

text \<open>
  What the draw helper does: the segment given to the visualizer (\<open>None\<close> when the
  static overload refused), whether the warning of the fallback branch was printed, and
  the line after the calls of \<^verbatim>\<open>getExtent\<close>.
\<close>

record draw_result =
  drawn :: "(vec3 \<times> vec3) option"
  warned :: bool
  line_after :: LinePrimitive

definition draw ::
  "LinePrimitive \<Rightarrow> PointPrimitive list \<Rightarrow> real \<Rightarrow> int list option \<Rightarrow> real
     \<Rightarrow> error + draw_result" where
  "draw line cloud radius indices stretch =
     (case draw_loop line cloud indices [] 0 radius of
        Inl er \<Rightarrow> Inl er
      | Inr (err, minMax0, it, line') \<Rightarrow>
          (let minMax = (if it \<ge> max_it
                         then [pos line', vadd (pos line') (vdiv (dir line') 10)]
                         else minMax0)
           in if length minMax < 2 then Inl IndexOutOfRange
              else
                (let p0 = minMax ! 0;
                     p1 = minMax ! 1;
                     diff = vsub p1 p0;
                     half_stretch = 1 + (stretch - 1) / 2;
                     p1_final = vadd p0 (vscale half_stretch diff);
                     p0_final = vsub p1 (vscale half_stretch diff);
                     ps = [p0_final, p1_final]
                 in Inr \<lparr> drawn = draw_endpoints ps,
                          warned = (it \<ge> max_it),
                          line_after = line' \<rparr>)))"

section \<open>Significance scoring\<close>

text \<open>
  Modelled from the spec: \<^verbatim>\<open>processing::getPopulationOf\<close> lives in the header
  \<^verbatim>\<open>globfit2/processing/util.hpp\<close>, of which only the include is at hand. The spec
  derives the population "from all points whose group tag equals the primitive's GID".
\<close>

definition getPopulationOf :: "int \<Rightarrow> PointPrimitive list \<Rightarrow> int list" where
  "getPopulationOf gid points =
     map int (filter (\<lambda>pid. point_tags (points ! pid) PNT_GID = gid) [0..<length points])"

text \<open>\<^verbatim>\<open>in.setConstant(c)\<close> overwrites every coefficient of the vector.\<close>

definition setConstant :: "real list \<Rightarrow> real \<Rightarrow> real list" where
  "setConstant v c = map (\<lambda>_. c) v"

datatype sig_error = EmptyOutputVector | SqrtOfNegative

text \<open>
  \<^verbatim>\<open>getSpatialSignificance\<close>. The eigen decomposition
  (\<^verbatim>\<open>processing::eigenDecomposition\<close>) lives in the same header and is a parameter:
  it maps the points and the population to the eigenvalues (the eigenvectors are not
  read). The two \<^verbatim>\<open>setConstant\<close> calls follow each other as in the source: the
  branch for the empty population neither returns nor has an \<^verbatim>\<open>else\<close>. Writing
  \<^verbatim>\<open>in(0)\<close> needs a non-empty vector, and \<^verbatim>\<open>std::sqrt\<close> of a negative number is NaN,
  which the real model cannot hold: the model stops with an error in both cases.
\<close>

definition getSpatialSignificance ::
  "(PointPrimitive list \<Rightarrow> int list \<Rightarrow> vec3) \<Rightarrow> LinePrimitive \<Rightarrow> real list
     \<Rightarrow> PointPrimitive list \<Rightarrow> int list option \<Rightarrow> bool \<Rightarrow> sig_error + real list" where
  "getSpatialSignificance eigenDecomposition this inp points indices return_squared =
     (let pop = (case indices of
                   None \<Rightarrow> getPopulationOf (getTag this GID) points
                 | Some ind \<Rightarrow> ind);
          in1 = (if pop = [] then setConstant inp (- 1) else inp);
          in2 = setConstant in1 0;
          eigen_values = eigenDecomposition points pop
      in if in2 = [] then Inl EmptyOutputVector
         else if return_squared then Inr (in2[0 := fst eigen_values])
         else if fst eigen_values < 0 then Inl SqrtOfNegative
         else Inr (in2[0 := sqrt (fst eigen_values)]))"

section \<open>Candidate generation\<close>

text \<open>
  The constructor \<^verbatim>\<open>LinePrimitive(p0, dir)\<close> writes the position and the normalised
  direction into a default-constructed parent. The parent class lives in the header
  \<^verbatim>\<open>globfit2/primitives/primitive.h\<close>, so the default-constructed primitive (its tags
  and its empty cache) is a parameter.
\<close>

definition LinePrimitive_of :: "LinePrimitive \<Rightarrow> vec3 \<Rightarrow> vec3 \<Rightarrow> LinePrimitive" where
  "LinePrimitive_of parent p0 d = parent\<lparr>pos := p0, dir := normalized d\<rparr>"

text \<open>
  \<^verbatim>\<open>generateFrom\<close>. Declared in other headers and taken as parameters: the angle
  function \<^verbatim>\<open>angleInRad\<close>, the value of the enumerator \<^verbatim>\<open>UNSET\<close>, and the
  default-constructed parent. \<^verbatim>\<open>angles[closest_angle_id]\<close> outside the container is
  undefined behaviour in the source; the model stops with \<open>IndexOutOfRange\<close> there.
\<close>

definition generateFrom ::
  "(vec3 \<Rightarrow> vec3 \<Rightarrow> real) \<Rightarrow> int \<Rightarrow> LinePrimitive
     \<Rightarrow> LinePrimitive \<Rightarrow> LinePrimitive \<Rightarrow> int \<Rightarrow> real list \<Rightarrow> real
     \<Rightarrow> error + (bool \<times> LinePrimitive)" where
  "generateFrom angleInRad UNSET parent this other closest_angle_id angles angle_multiplier =
     (if closest_angle_id < 0 \<or> int (length angles) \<le> closest_angle_id
      then Inl IndexOutOfRange
      else
        (let angle = angles ! nat closest_angle_id * angle_multiplier;
             d0 = rotateZ angle (dir other);
             d1 = rotateZ (- angle) (dir other);
             revert = (angleInRad (dir this) d0 > angleInRad (dir this) d1);
             out0 = LinePrimitive_of parent (pos this) (if revert then d1 else d0);
             out1 = setTag out0 GID (getTag this GID);
             out2 = setTag out1 DIR_GID (getTag other DIR_GID);
             out3 = setTag out2 STATUS UNSET
         in Inr (True, out3)))"

text \<open>
  Modelled from the spec: \<^verbatim>\<open>angleInRad\<close> lives in a header that is not at hand. The
  spec takes the angular distance "in radians, via the standard vector-pair angle". It is
  the angle function of the examples; the theorems on \<^verbatim>\<open>generateFrom\<close> hold for every
  angle function.
\<close>

definition angleInRad_std :: "vec3 \<Rightarrow> vec3 \<Rightarrow> real" where
  "angleInRad_std u v = arccos (dot u v / (norm3 u * norm3 v))"

section \<open>Correspondence matching\<close>

type_synonym GidLid = "int \<times> int"

type_synonym CostKey = "GidLid \<times> GidLid"

type_synonym CostEntry = "real \<times> CostKey"

type_synonym PrimitiveMapT = "(int \<times> LinePrimitive list) list"

text \<open>
  A \<^verbatim>\<open>std::map\<close> is modelled as an association list kept in ascending key order, which
  is the order its iterators visit. \<^verbatim>\<open>m[k] = v\<close> inserts the key at its place or
  overwrites the value it has.
\<close>

fun std_map_assign :: "'k::linorder \<Rightarrow> 'v \<Rightarrow> ('k \<times> 'v) list \<Rightarrow> ('k \<times> 'v) list" where
  "std_map_assign k v [] = [(k, v)]"
| "std_map_assign k v ((k', v') # m) =
     (if k' < k then (k', v') # std_map_assign k v m
      else if k = k' then (k, v) # m
      else (k, v) # (k', v') # m)"

definition std_map_find :: "('k \<times> 'v) list \<Rightarrow> 'k \<Rightarrow> 'v option" where
  "std_map_find m k = map_of m k"

definition estimateDistance ::
  "LinePrimitive \<Rightarrow> LinePrimitive \<Rightarrow> PointPrimitive list \<Rightarrow> point_tag \<Rightarrow> point_tag \<Rightarrow> real" where
  "estimateDistance prim gt_prim points pnt_gid gt_pnt_gid =
     norm3 (vsub (pos prim) (pos gt_prim))"

text \<open>
  The four nested loops that fill the cost map: patches of A, primitives of the patch
  (\<^verbatim>\<open>lidA\<close> counts from 0), patches of B, primitives of that patch.
\<close>

definition calc_costs ::
  "PrimitiveMapT \<Rightarrow> PrimitiveMapT \<Rightarrow> PointPrimitive list \<Rightarrow> (CostKey \<times> real) list" where
  "calc_costs prims_mapA prims_mapB points =
     fold (\<lambda>(gidA, patchA).
       fold (\<lambda>(lidA, primA).
         fold (\<lambda>(gidB, patchB).
           fold (\<lambda>(lidB, primB).
               std_map_assign ((gidA, int lidA), (gidB, int lidB))
                 (estimateDistance primA primB points PNT_USER_ID1 PNT_GID))
             (enumerate 0 patchB))
           prims_mapB)
         (enumerate 0 patchA))
       prims_mapA []"

text \<open>
  The cost list: one entry \<^verbatim>\<open>(cost, key)\<close> per entry of the cost map, then
  \<^verbatim>\<open>std::sort\<close> with the pair's own \<^verbatim>\<open>operator<\<close>, the lexicographic order.
\<close>

definition sorted_cost_list :: "(CostKey \<times> real) list \<Rightarrow> CostEntry list" where
  "sorted_cost_list costs = sort (map (\<lambda>(key, cost). (cost, key)) costs)"

text \<open>
  The state of the assignment scan: the two sets of taken identities, the output map
  \<^verbatim>\<open>corresps\<close>, the entries announced by the "chose" message in the order they were
  accepted, and the keys the "duplicate choice" diagnostic was printed for.
\<close>

record assign_state =
  taken_primsA :: "GidLid set"
  taken_primsB :: "GidLid set"
  corresps :: "(GidLid \<times> GidLid) list"
  chose :: "CostEntry list"
  duplicate_choice :: "GidLid list"

definition assign_init :: assign_state where
  "assign_init = \<lparr> taken_primsA = {}, taken_primsB = {}, corresps = [],
                   chose = [], duplicate_choice = [] \<rparr>"

definition assign_step :: "CostEntry \<Rightarrow> assign_state \<Rightarrow> assign_state" where
  "assign_step entry st =
     (let costKey = snd entry;
          gidLidA = fst costKey;
          gidLidB = snd costKey
      in if gidLidA \<notin> taken_primsA st \<and> gidLidB \<notin> taken_primsB st
         then st\<lparr> taken_primsA := insert gidLidA (taken_primsA st),
                  taken_primsB := insert gidLidB (taken_primsB st),
                  corresps := std_map_assign gidLidA gidLidB (corresps st),
                  chose := chose st @ [entry],
                  duplicate_choice :=
                    (if std_map_find (corresps st) gidLidA \<noteq> None
                     then duplicate_choice st @ [gidLidA]
                     else duplicate_choice st) \<rparr>
         else st)"

definition calculate_correspondences :: "CostEntry list \<Rightarrow> assign_state" where
  "calculate_correspondences cost_list = fold assign_step cost_list assign_init"

text \<open>The rows written to the table, one per entry of \<^verbatim>\<open>corresps\<close> in map order.\<close>

definition print_rows :: "(GidLid \<times> GidLid) list \<Rightarrow> (int \<times> int \<times> int \<times> int) list" where
  "print_rows cs = map (\<lambda>(gidLidA, gidLidB).
                          (fst gidLidA, snd gidLidA, fst gidLidB, snd gidLidB)) cs"

text \<open>
  The work of \<^verbatim>\<open>correspCli\<close> between reading its inputs and closing its output file.
\<close>

definition correspCli :: "PrimitiveMapT \<Rightarrow> PrimitiveMapT \<Rightarrow> PointPrimitive list \<Rightarrow> assign_state" where
  "correspCli prims_mapA prims_mapB points =
     calculate_correspondences (sorted_cost_list (calc_costs prims_mapA prims_mapB points))"

section \<open>Example inputs\<close>

text \<open>A line along the x axis through the origin, and two points beside it.\<close>

definition example_line :: LinePrimitive where
  "example_line = \<lparr>pos = (0, 0, 0), dir = (1, 0, 0), tags = (\<lambda>_. 0), extents = None\<rparr>"

definition example_cloud :: "PointPrimitive list" where
  "example_cloud = [\<lparr>point_pos = (2, 5, 0), point_tags = (\<lambda>_. 0)\<rparr>,
                    \<lparr>point_pos = (- 3, 1, 0), point_tags = (\<lambda>_. 0)\<rparr>]"

text \<open>
  Three points beside the same line, at the distances 5, 1 and 2 from it.
\<close>

definition example_cloud3 :: "PointPrimitive list" where
  "example_cloud3 = [\<lparr>point_pos = (2, 5, 0), point_tags = (\<lambda>_. 0)\<rparr>,
                     \<lparr>point_pos = (- 3, 1, 0), point_tags = (\<lambda>_. 0)\<rparr>,
                     \<lparr>point_pos = (4, 2, 0), point_tags = (\<lambda>_. 0)\<rparr>]"

text \<open>
  Two primitive maps for the matcher: two patches of one primitive each in A, one patch
  of two primitives in B, all on the x axis.
\<close>

definition example_primsA :: PrimitiveMapT where
  "example_primsA =
     [(0, [example_line\<lparr>pos := (5, 0, 0)\<rparr>]),
      (1, [example_line\<lparr>pos := (0, 0, 0)\<rparr>])]"

definition example_primsB :: PrimitiveMapT where
  "example_primsB =
     [(0, [example_line\<lparr>pos := (0, 0, 0)\<rparr>, example_line\<lparr>pos := (7, 0, 0)\<rparr>])]"

section \<open>Auxiliary notions for the proofs\<close>

text \<open>
  The invariant of the assignment scan: the taken sets are the keys and the values of
  \<^verbatim>\<open>corresps\<close>, which holds exactly the chosen pairs, with strictly ascending keys and
  distinct values; the duplicate diagnostic has not been printed.
\<close>

definition assign_inv :: "assign_state \<Rightarrow> bool" where
  "assign_inv st \<longleftrightarrow>
     taken_primsA st = fst ` set (corresps st)
   \<and> taken_primsB st = snd ` set (corresps st)
   \<and> set (corresps st) = snd ` set (chose st)
   \<and> length (corresps st) = length (chose st)
   \<and> sorted_wrt (<) (map fst (corresps st))
   \<and> distinct (map snd (corresps st))
   \<and> duplicate_choice st = []"

text \<open>
  The primitives of a map in iteration order, each with its identity
  \<open>(group id, index within the group)\<close>.
\<close>

definition flat_prims :: "PrimitiveMapT \<Rightarrow> (GidLid \<times> LinePrimitive) list" where
  "flat_prims m =
     concat (map (\<lambda>(gid, patch). map (\<lambda>(lid, prim). ((gid, int lid), prim)) (enumerate 0 patch)) m)"

section \<open>Properties of extent estimation\<close>

lemma getExtent_cached:
  "extents this = Some e \<Longrightarrow> getExtent this minMax cloud threshold indices_arg = Inr (0, e, this)"
  by (simp add: getExtent_def)

lemma getExtent_result_cases:
  assumes "getExtent this minMax cloud threshold indices_arg = Inr (code, minMax', this')"
  shows "(code = EXIT_SUCCESS \<and> extents this' = Some minMax')
       \<or> (code = EXIT_FAILURE \<and> extents this = None \<and> minMax' = minMax \<and> this' = this)"
  using assms
  by (auto simp: getExtent_def EXIT_SUCCESS_def EXIT_FAILURE_def Let_def
           split: option.splits sum.splits if_splits prod.splits)

lemmas example_eval =
  example_line_def example_cloud_def getExtent_def visited_pids_def getDistance_def
  norm3_def projectPoint_def Let_def EXIT_SUCCESS_def EXIT_FAILURE_def

lemma getExtent_example_far:
  "getExtent example_line mm example_cloud 6 None =
     Inr (EXIT_SUCCESS, [(- 3, 0, 0), (2, 0, 0)],
          example_line\<lparr>extents := Some [(- 3, 0, 0), (2, 0, 0)]\<rparr>)"
  by (simp add: example_eval)

lemma getExtent_example_near:
  "getExtent example_line mm example_cloud (1/2) None = Inr (EXIT_FAILURE, mm, example_line)"
  by (simp add: example_eval)

text \<open>
  Claim C7. Once a call of \<^verbatim>\<open>getExtent\<close> has succeeded on a primitive, every later call
  on that primitive returns the success code and the same endpoints, and leaves the
  primitive as it is, whatever output container, point set, threshold and indices the
  later call is given.
\<close>

theorem getExtent_first_computation_wins:
  assumes "getExtent this minMax cloud threshold indices_arg = Inr (EXIT_SUCCESS, minMax1, this1)"
  shows "getExtent this1 minMax2 cloud2 threshold2 indices_arg2 = Inr (EXIT_SUCCESS, minMax1, this1)"
proof -
  from getExtent_result_cases [OF assms]
  have "extents this1 = Some minMax1"
    by (auto simp: EXIT_SUCCESS_def EXIT_FAILURE_def)
  then show ?thesis
    by (simp add: getExtent_cached EXIT_SUCCESS_def)
qed

theorem getExtent_first_computation_wins_witness:
  "getExtent example_line [] example_cloud 6 None =
     Inr (EXIT_SUCCESS, [(- 3, 0, 0), (2, 0, 0)],
          example_line\<lparr>extents := Some [(- 3, 0, 0), (2, 0, 0)]\<rparr>)
   \<and> getExtent (example_line\<lparr>extents := Some [(- 3, 0, 0), (2, 0, 0)]\<rparr>) [(7, 7, 7)] [] (1/2) (Some [4]) =
     Inr (EXIT_SUCCESS, [(- 3, 0, 0), (2, 0, 0)],
          example_line\<lparr>extents := Some [(- 3, 0, 0), (2, 0, 0)]\<rparr>)"
  using getExtent_first_computation_wins [OF getExtent_example_far [of "[]"], of "[(7, 7, 7)]" "[]" "1/2" "Some [4]"]
        getExtent_example_far [of "[]"]
  by simp

lemma select_inliers_filter:
  "\<forall>pid\<in>set pids. 0 \<le> pid \<and> pid < int (length cloud) \<Longrightarrow>
   select_inliers this cloud threshold pids acc =
     Inr (acc @ filter (\<lambda>pid. getDistance this (point_pos (cloud ! nat pid)) < threshold) pids)"
  by (induction pids arbitrary: acc) auto

lemma dot_vsub_self: "dot (vsub p p) q = 0"
  by (cases p; cases q) simp

lemma minmax_scan_inv:
  assumes "ps = drop i full" and "mni < i" and "mxi < i" and "i \<le> length full"
    and "mn = dot (vsub (full ! mni) p0) (vadd p0 ld)"
    and "mx = dot (vsub (full ! mxi) p0) (vadd p0 ld)"
    and "\<forall>k<i. mn \<le> dot (vsub (full ! k) p0) (vadd p0 ld) \<and> dot (vsub (full ! k) p0) (vadd p0 ld) \<le> mx"
    and "minmax_scan p0 ld ps i (mn, mni, mx, mxi) = (mn', mni', mx', mxi')"
  shows "mni' < length full \<and> mxi' < length full \<and>
         (\<forall>k<length full. dot (vsub (full ! mni') p0) (vadd p0 ld) \<le> dot (vsub (full ! k) p0) (vadd p0 ld)
              \<and> dot (vsub (full ! k) p0) (vadd p0 ld) \<le> dot (vsub (full ! mxi') p0) (vadd p0 ld))"
  using assms
proof (induction ps arbitrary: i mn mni mx mxi)
  case Nil
  then have "i = length full" by simp
  with Nil show ?case by simp
next
  case (Cons p1 rest)
  from Cons.prems(1) have il: "i < length full"
    by (metis drop_all leI list.distinct(1))
  from Cons.prems(1) il have p1: "p1 = full ! i" and rest: "rest = drop (Suc i) full"
    by (simp_all add: Cons_nth_drop_Suc [symmetric])
  let ?d = "\<lambda>k. dot (vsub (full ! k) p0) (vadd p0 ld)"
  let ?dist = "?d i"
  have lt_Suc: "\<And>P. (\<forall>k<Suc i. P k) = ((\<forall>k<i. P k) \<and> P i)"
    by (auto simp: less_Suc_eq)
  show ?case
  proof (cases "?dist < mn")
    case True
    with Cons.prems(8) have scan: "minmax_scan p0 ld rest (Suc i) (?dist, i, mx, mxi) = (mn', mni', mx', mxi')"
      by (simp add: p1 Let_def)
    show ?thesis
      apply (rule Cons.IH [OF rest _ _ _ _ _ _ scan])
      using Cons.prems(2-7) il True by (auto simp: less_Suc_eq)
  next
    case False
    show ?thesis
    proof (cases "?dist > mx")
      case True
      with False Cons.prems(8) have scan: "minmax_scan p0 ld rest (Suc i) (mn, mni, ?dist, i) = (mn', mni', mx', mxi')"
        by (simp add: p1 Let_def)
      show ?thesis
        apply (rule Cons.IH [OF rest _ _ _ _ _ _ scan])
        using Cons.prems(2-7) il True False by (auto simp: less_Suc_eq)
    next
      case F2: False
      with False Cons.prems(8) have scan: "minmax_scan p0 ld rest (Suc i) (mn, mni, mx, mxi) = (mn', mni', mx', mxi')"
        by (simp add: p1 Let_def)
      show ?thesis
        apply (rule Cons.IH [OF rest _ _ _ _ _ _ scan])
        using Cons.prems(2-7) il F2 False by (auto simp: less_Suc_eq)
    qed
  qed
qed

lemma getExtent_on_valid_ids:
  assumes "extents this = None"
    and "\<forall>pid\<in>set (visited_pids cloud indices_arg). 0 \<le> pid \<and> pid < int (length cloud)"
  shows "getExtent this minMax cloud threshold indices_arg =
     (let inliers = filter (\<lambda>pid. getDistance this (point_pos (cloud ! nat pid)) < threshold)
                      (visited_pids cloud indices_arg)
      in if inliers = [] then Inr (EXIT_FAILURE, minMax, this)
         else
           (let on_line_cloud = map (\<lambda>pid. projectPoint this (point_pos (cloud ! nat pid))) inliers
            in case minmax_scan (on_line_cloud ! 0) (dir this) (tl on_line_cloud) 1 (0, 0, 0, 0) of
                 (min_dist, min_id, max_dist, max_id) \<Rightarrow>
                   Inr (EXIT_SUCCESS, [on_line_cloud ! min_id, on_line_cloud ! max_id],
                        this\<lparr>extents := Some [on_line_cloud ! min_id, on_line_cloud ! max_id]\<rparr>)))"
  using assms by (simp add: getExtent_def select_inliers_filter Let_def)

lemma minmax_scan_extremes:
  assumes "full \<noteq> []"
    and "minmax_scan (full ! 0) ld (tl full) 1 (0, 0, 0, 0) = (mn', mni', mx', mxi')"
  shows "mni' < length full \<and> mxi' < length full \<and>
         (\<forall>k<length full.
            dot (vsub (full ! mni') (full ! 0)) (vadd (full ! 0) ld)
              \<le> dot (vsub (full ! k) (full ! 0)) (vadd (full ! 0) ld)
          \<and> dot (vsub (full ! k) (full ! 0)) (vadd (full ! 0) ld)
              \<le> dot (vsub (full ! mxi') (full ! 0)) (vadd (full ! 0) ld))"
proof (rule minmax_scan_inv [where i = 1 and mn = 0 and mx = 0 and mni = 0 and mxi = 0,
        OF _ _ _ _ _ _ _ assms(2)])
  show "tl full = drop 1 full" by (simp add: drop_Suc)
  show "1 \<le> length full" using assms(1) by (cases full) simp_all
qed (simp_all add: dot_vsub_self)

lemma example_hyps:
  "extents example_line = None"
  "\<forall>pid\<in>set (visited_pids example_cloud None). 0 \<le> pid \<and> pid < int (length example_cloud)"
  "dir example_line \<noteq> (0, 0, 0)"
  by (simp_all add: example_line_def example_cloud_def visited_pids_def)

lemma getExtent_empty_cache:
  assumes "extents this = None"
    and "\<forall>pid\<in>set (visited_pids cloud indices_arg). 0 \<le> pid \<and> pid < int (length cloud)"
    and "dir this \<noteq> (0, 0, 0)"
  shows
    "let inliers = filter (\<lambda>pid. getDistance this (point_pos (cloud ! nat pid)) < threshold)
                     (visited_pids cloud indices_arg);
         P = (\<lambda>k. projectPoint this (point_pos (cloud ! nat (inliers ! k))));
         d = (\<lambda>k. dot (vsub (P k) (P 0)) (vadd (P 0) (dir this)))
     in select_inliers this cloud threshold (visited_pids cloud indices_arg) [] = Inr inliers
      \<and> ((\<exists>mm this'. getExtent this minMax cloud threshold indices_arg = Inr (EXIT_FAILURE, mm, this'))
            \<longleftrightarrow> inliers = [])
      \<and> (inliers \<noteq> [] \<longrightarrow>
           (\<exists>i j. i < length inliers \<and> j < length inliers
               \<and> (\<forall>k<length inliers. d i \<le> d k \<and> d k \<le> d j)
               \<and> getExtent this minMax cloud threshold indices_arg =
                   Inr (EXIT_SUCCESS, [P i, P j], this\<lparr>extents := Some [P i, P j]\<rparr>)))"
proof -
  define inliers where "inliers = filter (\<lambda>pid. getDistance this (point_pos (cloud ! nat pid)) < threshold)
                     (visited_pids cloud indices_arg)"
  define P where "P = (\<lambda>k. projectPoint this (point_pos (cloud ! nat (inliers ! k))))"
  define d where "d = (\<lambda>k. dot (vsub (P k) (P 0)) (vadd (P 0) (dir this)))"
  define olc where "olc = map (\<lambda>pid. projectPoint this (point_pos (cloud ! nat pid))) inliers"
  have sel: "select_inliers this cloud threshold (visited_pids cloud indices_arg) [] = Inr inliers"
    using assms(2) by (simp add: select_inliers_filter inliers_def)
  have ge: "getExtent this minMax cloud threshold indices_arg =
      (if inliers = [] then Inr (EXIT_FAILURE, minMax, this)
       else case minmax_scan (olc ! 0) (dir this) (tl olc) 1 (0, 0, 0, 0) of
              (min_dist, min_id, max_dist, max_id) \<Rightarrow>
                Inr (EXIT_SUCCESS, [olc ! min_id, olc ! max_id],
                     this\<lparr>extents := Some [olc ! min_id, olc ! max_id]\<rparr>))"
    using getExtent_on_valid_ids [OF assms(1,2)]
    by (simp add: Let_def inliers_def olc_def)
  have olcP: "\<And>k. k < length inliers \<Longrightarrow> olc ! k = P k"
    by (simp add: olc_def P_def)
  have len: "length olc = length inliers" by (simp add: olc_def)
  have fail_iff: "(\<exists>mm this'. getExtent this minMax cloud threshold indices_arg = Inr (EXIT_FAILURE, mm, this'))
            \<longleftrightarrow> inliers = []"
    by (auto simp: ge EXIT_SUCCESS_def EXIT_FAILURE_def split: prod.splits)
  have succ: "\<exists>i j. i < length inliers \<and> j < length inliers
               \<and> (\<forall>k<length inliers. d i \<le> d k \<and> d k \<le> d j)
               \<and> getExtent this minMax cloud threshold indices_arg =
                   Inr (EXIT_SUCCESS, [P i, P j], this\<lparr>extents := Some [P i, P j]\<rparr>)"
    if ne: "inliers \<noteq> []"
  proof -
    obtain mn i mx j where scan: "minmax_scan (olc ! 0) (dir this) (tl olc) 1 (0, 0, 0, 0) = (mn, i, mx, j)"
      by (metis prod_cases4)
    from ne have one: "olc \<noteq> []" by (simp add: olc_def)
    from ne have zero: "0 < length inliers" by simp
    note ext = minmax_scan_extremes [OF one scan]
    from ext have i: "i < length inliers" and j: "j < length inliers"
      by (simp_all add: len)
    have "\<forall>k<length inliers. d i \<le> d k \<and> d k \<le> d j"
      using ext i j zero by (simp add: len olcP d_def)
    moreover have "getExtent this minMax cloud threshold indices_arg =
                   Inr (EXIT_SUCCESS, [P i, P j], this\<lparr>extents := Some [P i, P j]\<rparr>)"
      using ne scan i j by (simp add: ge olcP)
    ultimately show ?thesis using i j by blast
  qed
  show ?thesis
    using sel fail_iff succ
    unfolding Let_def d_def P_def inliers_def
    by blast
qed

text \<open>
  Claim C4. For a primitive whose extent cache is empty, \<^verbatim>\<open>getExtent\<close> selects exactly
  the point ids whose distance to the line, the norm of the cross product of
  \<open>position - point\<close> and the direction, is strictly below the threshold: among the given
  indices, in their order, when indices are given, and among all ids of the cloud
  otherwise. It returns the failure code if and only if that selection is empty. Otherwise
  it returns, with the success code, the orthogonal projections of two selected points
  that attain the minimum and the maximum of \<open>dot (p\<^sub>i - p\<^sub>0) (p\<^sub>0 + direction)\<close> over
  the projected selection, \<open>p\<^sub>0\<close> being the projection of the first selected point. The ids
  are assumed to lie inside the cloud and the direction to be non-zero (the projection
  divides by its squared length).
\<close>

theorem getExtent_uncached:
  assumes "extents this = None"
    and "\<forall>pid\<in>set (case indices_arg of None \<Rightarrow> map int [0..<length cloud] | Some ind \<Rightarrow> ind).
           0 \<le> pid \<and> pid < int (length cloud)"
    and "dir this \<noteq> (0, 0, 0)"
  shows
    "let ids = (case indices_arg of None \<Rightarrow> map int [0..<length cloud] | Some ind \<Rightarrow> ind);
         distance = (\<lambda>pid. norm3 (cross (vsub (pos this) (point_pos (cloud ! nat pid))) (dir this)));
         inliers = filter (\<lambda>pid. distance pid < threshold) ids;
         project = (\<lambda>p. vadd (pos this)
                      (vscale ((dot p (dir this) - dot (pos this) (dir this)) / dot (dir this) (dir this))
                         (dir this)));
         P = (\<lambda>k. project (point_pos (cloud ! nat (inliers ! k))));
         d = (\<lambda>k. dot (vsub (P k) (P 0)) (vadd (P 0) (dir this)))
     in ((\<exists>mm this'. getExtent this minMax cloud threshold indices_arg = Inr (EXIT_FAILURE, mm, this'))
            \<longleftrightarrow> inliers = [])
      \<and> (inliers = [] \<longrightarrow>
           getExtent this minMax cloud threshold indices_arg = Inr (EXIT_FAILURE, minMax, this))
      \<and> (inliers \<noteq> [] \<longrightarrow>
           (\<exists>i j. i < length inliers \<and> j < length inliers
               \<and> (\<forall>k<length inliers. d i \<le> d k \<and> d k \<le> d j)
               \<and> getExtent this minMax cloud threshold indices_arg =
                   Inr (EXIT_SUCCESS, [P i, P j], this\<lparr>extents := Some [P i, P j]\<rparr>)))"
proof -
  have ids: "\<forall>pid\<in>set (visited_pids cloud indices_arg). 0 \<le> pid \<and> pid < int (length cloud)"
    using assms(2) by (simp add: visited_pids_def)
  have fail: "getExtent this minMax cloud threshold indices_arg = Inr (EXIT_FAILURE, minMax, this)"
    if "filter (\<lambda>pid. getDistance this (point_pos (cloud ! nat pid)) < threshold)
          (visited_pids cloud indices_arg) = []"
    using getExtent_on_valid_ids [OF assms(1) ids, of minMax threshold] that
    by (simp add: Let_def)
  from getExtent_empty_cache [OF assms(1) ids assms(3), of threshold minMax] fail
  show ?thesis
    unfolding Let_def visited_pids_def getDistance_def projectPoint_def
    by blast
qed

lemma example_cloud3_hyps:
  "\<forall>pid\<in>set (case Some [2, 1] of None \<Rightarrow> map int [0..<length example_cloud3] | Some ind \<Rightarrow> ind).
     0 \<le> pid \<and> pid < int (length example_cloud3)"
  "\<forall>pid\<in>set (case None of None \<Rightarrow> map int [0..<length example_cloud3] | Some ind \<Rightarrow> ind).
     0 \<le> pid \<and> pid < int (length example_cloud3)"
  by (simp_all add: example_cloud3_def)

theorem getExtent_uncached_witness:
  "extents example_line = None \<and> dir example_line \<noteq> (0, 0, 0)
   \<and> getExtent example_line [] example_cloud3 6 (Some [2, 1]) =
       Inr (EXIT_SUCCESS, [(- 3, 0, 0), (4, 0, 0)],
            example_line\<lparr>extents := Some [(- 3, 0, 0), (4, 0, 0)]\<rparr>)
   \<and> getExtent example_line [] example_cloud3 5 None =
       Inr (EXIT_SUCCESS, [(4, 0, 0), (- 3, 0, 0)],
            example_line\<lparr>extents := Some [(4, 0, 0), (- 3, 0, 0)]\<rparr>)
   \<and> getExtent example_line [] example_cloud3 6 None =
       Inr (EXIT_SUCCESS, [(- 3, 0, 0), (4, 0, 0)],
            example_line\<lparr>extents := Some [(- 3, 0, 0), (4, 0, 0)]\<rparr>)
   \<and> getExtent example_line [] example_cloud3 1 None = Inr (EXIT_FAILURE, [], example_line)"
  using getExtent_uncached [OF example_hyps(1) example_cloud3_hyps(1) example_hyps(3), of 6 "[]"]
        getExtent_uncached [OF example_hyps(1) example_cloud3_hyps(2) example_hyps(3), of 5 "[]"]
        getExtent_uncached [OF example_hyps(1) example_cloud3_hyps(2) example_hyps(3), of 6 "[]"]
        getExtent_uncached [OF example_hyps(1) example_cloud3_hyps(2) example_hyps(3), of 1 "[]"]
        example_hyps(1,3)
  by (simp add: example_eval example_cloud3_def)

text \<open>
  Claim C10. When \<^verbatim>\<open>getExtent\<close> runs on an empty cache and finds no inlier, it returns
  the failure code, leaves the output container as it was and leaves the cache empty; a
  later call whose threshold admits an inlier therefore computes an extent of two
  endpoints, and caches it.
\<close>

theorem getExtent_failure_keeps_state:
  assumes "extents this = None"
    and "getExtent this minMax cloud threshold indices_arg = Inr (EXIT_FAILURE, minMax', this')"
  shows "minMax' = minMax \<and> this' = this \<and> extents this' = None
       \<and> (\<forall>threshold2 inliers.
             select_inliers this cloud threshold2 (visited_pids cloud indices_arg) [] = Inr inliers
               \<and> inliers \<noteq> []
             \<longrightarrow> (\<exists>minMax2. length minMax2 = 2
                    \<and> getExtent this' minMax' cloud threshold2 indices_arg =
                        Inr (EXIT_SUCCESS, minMax2, this'\<lparr>extents := Some minMax2\<rparr>)))"
proof -
  from getExtent_result_cases [OF assms(2)]
  have same: "minMax' = minMax \<and> this' = this"
    by (auto simp: EXIT_SUCCESS_def EXIT_FAILURE_def)
  have "\<exists>minMax2. length minMax2 = 2
          \<and> getExtent this minMax cloud threshold2 indices_arg =
              Inr (EXIT_SUCCESS, minMax2, this\<lparr>extents := Some minMax2\<rparr>)"
    if "select_inliers this cloud threshold2 (visited_pids cloud indices_arg) [] = Inr inliers"
      and "inliers \<noteq> []" for threshold2 inliers
    using that assms(1)
    by (simp add: getExtent_def Let_def split: prod.splits)
  with same assms(1) show ?thesis by blast
qed

theorem getExtent_failure_keeps_state_witness:
  "extents example_line = None
   \<and> getExtent example_line [] example_cloud (1/2) None = Inr (EXIT_FAILURE, [], example_line)
   \<and> select_inliers example_line example_cloud 6 (visited_pids example_cloud None) [] = Inr [0, 1]
   \<and> getExtent example_line [] example_cloud 6 None =
       Inr (EXIT_SUCCESS, [(- 3, 0, 0), (2, 0, 0)],
            example_line\<lparr>extents := Some [(- 3, 0, 0), (2, 0, 0)]\<rparr>)"
  using getExtent_failure_keeps_state [OF example_hyps(1) getExtent_example_near [of "[]"]]
        example_hyps(1) getExtent_example_near [of "[]"]
  by (simp add: example_eval)

section \<open>Properties of the draw helper\<close>

lemma getExtent_container_success:
  assumes "getExtent line [] cloud t idx = Inr (code, m0, l)" and "2 \<le> length m0"
  shows "getExtent line mm cloud t idx = Inr (code, m0, l)"
  using assms
  by (auto simp: getExtent_def Let_def split: option.splits sum.splits if_splits prod.splits)

lemma getExtent_container_short:
  assumes "getExtent line [] cloud t idx = Inr (code, m0, l)" and "length m0 < 2" and "length mm < 2"
  shows "\<exists>m1. getExtent line mm cloud t idx = Inr (code, m1, line) \<and> length m1 < 2"
  using assms
  by (auto simp: getExtent_def Let_def split: option.splits sum.splits if_splits prod.splits)

lemma draw_loop_all_fail:
  assumes "it = max_it - int n" and "0 < n" and "length mm < 2"
    and "\<forall>j<n. \<exists>code m0 l. getExtent line [] cloud (r * 2 ^ j) idx = Inr (code, m0, l) \<and> length m0 < 2"
  shows "\<exists>err mm'. draw_loop line cloud idx mm it r = Inr (err, mm', max_it, line) \<and> length mm' < 2"
  using assms
proof (induction n arbitrary: it mm r)
  case 0
  then show ?case by simp
next
  case (Suc n)
  from Suc.prems(4) obtain code m0 l
    where a0: "getExtent line [] cloud r idx = Inr (code, m0, l)" "length m0 < 2"
    by fastforce
  from getExtent_container_short [OF a0 Suc.prems(3)] obtain m1
    where g: "getExtent line mm cloud r idx = Inr (code, m1, line)" and m1: "length m1 < 2"
    by blast
  show ?case
  proof (cases "n = 0")
    case True
    with Suc.prems(1) have "it + 1 = max_it" by simp
    with g m1 show ?thesis
      by (subst draw_loop.simps) simp
  next
    case False
    with Suc.prems(1) have lt: "it + 1 < max_it" and it': "it + 1 = max_it - int n" by simp_all
    have rest: "\<forall>j<n. \<exists>code m0 l. getExtent line [] cloud (r * 2 * 2 ^ j) idx = Inr (code, m0, l) \<and> length m0 < 2"
    proof (intro allI impI)
      fix j assume "j < n"
      then have "Suc j < Suc n" by simp
      with Suc.prems(4) have "\<exists>code m0 l. getExtent line [] cloud (r * 2 ^ Suc j) idx = Inr (code, m0, l) \<and> length m0 < 2"
        by blast
      then show "\<exists>code m0 l. getExtent line [] cloud (r * 2 * 2 ^ j) idx = Inr (code, m0, l) \<and> length m0 < 2"
        by (simp add: mult.assoc)
    qed
    from False have "0 < n" by simp
    from Suc.IH [OF it' this m1 rest] g m1 lt show ?thesis
      by (subst draw_loop.simps) simp
  qed
qed

lemma draw_loop_success_at:
  assumes "it + int n < max_it" and "length mm < 2"
    and "\<forall>j<n. \<exists>code m0 l. getExtent line [] cloud (r * 2 ^ j) idx = Inr (code, m0, l) \<and> length m0 < 2"
    and "getExtent line [] cloud (r * 2 ^ n) idx = Inr (code, m2, line2)" and "2 \<le> length m2"
  shows "draw_loop line cloud idx mm it r = Inr (code, m2, it + int n, line2)"
  using assms
proof (induction n arbitrary: it mm r)
  case 0
  from getExtent_container_success [of line cloud r idx code m2 line2 mm] "0.prems"(4,5)
  have "getExtent line mm cloud r idx = Inr (code, m2, line2)" by simp
  with "0.prems"(5) show ?case
    by (subst draw_loop.simps) simp
next
  case (Suc n)
  from Suc.prems(3) obtain code0 m0 l
    where a0: "getExtent line [] cloud r idx = Inr (code0, m0, l)" "length m0 < 2"
    by fastforce
  from getExtent_container_short [OF a0 Suc.prems(2)] obtain m1
    where g: "getExtent line mm cloud r idx = Inr (code0, m1, line)" and m1: "length m1 < 2"
    by blast
  from Suc.prems(1) have lt: "it + 1 < max_it" and it': "(it + 1) + int n < max_it" by simp_all
  have rest: "\<forall>j<n. \<exists>code m0 l. getExtent line [] cloud (r * 2 * 2 ^ j) idx = Inr (code, m0, l) \<and> length m0 < 2"
  proof (intro allI impI)
    fix j assume "j < n"
    then have "Suc j < Suc n" by simp
    with Suc.prems(3) have "\<exists>code m0 l. getExtent line [] cloud (r * 2 ^ Suc j) idx = Inr (code, m0, l) \<and> length m0 < 2"
      by blast
    then show "\<exists>code m0 l. getExtent line [] cloud (r * 2 * 2 ^ j) idx = Inr (code, m0, l) \<and> length m0 < 2"
      by (simp add: mult.assoc)
  qed
  from Suc.prems(4) have last: "getExtent line [] cloud (r * 2 * 2 ^ n) idx = Inr (code, m2, line2)"
    by (simp add: mult.assoc)
  from Suc.IH [OF it' m1 rest last Suc.prems(5)] g m1 lt show ?case
    by (subst draw_loop.simps) (simp add: add.assoc)
qed

text \<open>
  What the draw helper does. It calls \<^verbatim>\<open>getExtent\<close> with the thresholds
  \<open>radius * 2 ^ k\<close> for \<open>k = 0, 1, ...\<close> and stops at the first attempt that yields two
  endpoints, after at most 10 attempts. If all 10 attempts yield fewer than two endpoints,
  it prints its warning and hands the visualizer the segment from the primitive's position
  to \<open>position + direction / 10\<close> (stretched about its midpoint by \<open>stretch\<close>). Otherwise
  it draws the (stretched) segment between the two endpoints of the first successful
  attempt.
\<close>

lemma draw_retries_doubling_then_fallback:
  "let half_stretch = 1 + (stretch - 1) / 2;
       segment = (\<lambda>p0 p1. (vsub p1 (vscale half_stretch (vsub p1 p0)),
                            vadd p0 (vscale half_stretch (vsub p1 p0))));
       fails = (\<lambda>k. \<exists>code m0 l. getExtent line [] cloud (radius * 2 ^ k) indices = Inr (code, m0, l)
                               \<and> length m0 < 2)
   in ((\<forall>k<10. fails k) \<longrightarrow>
         draw line cloud radius indices stretch =
           Inr \<lparr> drawn = Some (segment (pos line) (vadd (pos line) (vdiv (dir line) 10))),
                 warned = True, line_after = line \<rparr>)
    \<and> (\<forall>n<10. \<forall>code m2 line2.
          (\<forall>k<n. fails k)
          \<and> getExtent line [] cloud (radius * 2 ^ n) indices = Inr (code, m2, line2)
          \<and> 2 \<le> length m2 \<longrightarrow>
         draw line cloud radius indices stretch =
           Inr \<lparr> drawn = Some (segment (m2 ! 0) (m2 ! 1)), warned = False, line_after = line2 \<rparr>)"
proof -
  let ?fails = "\<lambda>k. \<exists>code m0 l. getExtent line [] cloud (radius * 2 ^ k) indices = Inr (code, m0, l)
                               \<and> length m0 < 2"
  have A: "draw line cloud radius indices stretch =
           Inr \<lparr> drawn = Some (vsub (vadd (pos line) (vdiv (dir line) 10))
                                 (vscale (1 + (stretch - 1) / 2)
                                    (vsub (vadd (pos line) (vdiv (dir line) 10)) (pos line))),
                               vadd (pos line)
                                 (vscale (1 + (stretch - 1) / 2)
                                    (vsub (vadd (pos line) (vdiv (dir line) 10)) (pos line)))),
                 warned = True, line_after = line \<rparr>"
    if "\<forall>k<10. ?fails k"
  proof -
    have "\<exists>err mm'. draw_loop line cloud indices [] 0 radius = Inr (err, mm', max_it, line) \<and> length mm' < 2"
      by (rule draw_loop_all_fail [where n = 10]) (use that in \<open>simp_all add: max_it_def\<close>)
    then obtain err mm' where "draw_loop line cloud indices [] 0 radius = Inr (err, mm', max_it, line)"
      by blast
    then show ?thesis
      by (simp add: draw_def Let_def draw_endpoints_def)
  qed
  have B: "draw line cloud radius indices stretch =
           Inr \<lparr> drawn = Some (vsub (m2 ! 1) (vscale (1 + (stretch - 1) / 2) (vsub (m2 ! 1) (m2 ! 0))),
                               vadd (m2 ! 0) (vscale (1 + (stretch - 1) / 2) (vsub (m2 ! 1) (m2 ! 0)))),
                 warned = False, line_after = line2 \<rparr>"
    if "n < 10" and "\<forall>k<n. ?fails k"
      and "getExtent line [] cloud (radius * 2 ^ n) indices = Inr (code, m2, line2)"
      and "2 \<le> length m2" for n code m2 line2
  proof -
    have "draw_loop line cloud indices [] 0 radius = Inr (code, m2, 0 + int n, line2)"
      by (rule draw_loop_success_at) (use that in \<open>simp_all add: max_it_def\<close>)
    with that(1,4) show ?thesis
      by (simp add: draw_def Let_def draw_endpoints_def max_it_def)
  qed
  show ?thesis
    unfolding Let_def using A B by blast
qed

lemma example_empty_cloud_fails:
  "getExtent example_line [] [] t None = Inr (EXIT_FAILURE, [], example_line)"
  by (simp add: example_eval)

lemma example_cloud_fails_below_2:
  "k < 2 \<Longrightarrow> getExtent example_line [] example_cloud (1 / 2 * 2 ^ k) None = Inr (EXIT_FAILURE, [], example_line)"
  by (auto simp: less_2_cases_iff example_eval)

lemma example_cloud_succeeds_at_2:
  "getExtent example_line [] example_cloud (1 / 2 * 2 ^ 2) None =
     Inr (EXIT_SUCCESS, [(- 3, 0, 0), (- 3, 0, 0)],
          example_line\<lparr>extents := Some [(- 3, 0, 0), (- 3, 0, 0)]\<rparr>)"
  by (simp add: example_eval)

lemma draw_retries_doubling_then_fallback_example:
  "draw example_line [] 1 None 1 =
     Inr \<lparr> drawn = Some ((0, 0, 0), (1 / 10, 0, 0)), warned = True, line_after = example_line \<rparr>
   \<and> draw example_line example_cloud (1 / 2) None 1 =
     Inr \<lparr> drawn = Some ((- 3, 0, 0), (- 3, 0, 0)), warned = False,
           line_after = example_line\<lparr>extents := Some [(- 3, 0, 0), (- 3, 0, 0)]\<rparr> \<rparr>"
proof -
  have f1: "\<forall>k<10. \<exists>code m0 l. getExtent example_line [] [] (1 * 2 ^ k) None = Inr (code, m0, l)
                               \<and> length m0 < 2"
    by (simp add: example_empty_cloud_fails)
  have f2: "\<forall>k<2. \<exists>code m0 l. getExtent example_line [] example_cloud (1 / 2 * 2 ^ k) None = Inr (code, m0, l)
                               \<and> length m0 < 2"
  proof (intro allI impI)
    fix k :: nat
    assume "k < 2"
    then have "getExtent example_line [] example_cloud (1 / 2 * 2 ^ k) None =
                 Inr (EXIT_FAILURE, [], example_line)"
      by (rule example_cloud_fails_below_2)
    moreover have "length ([] :: vec3 list) < 2" by simp
    ultimately show "\<exists>code m0 l. getExtent example_line [] example_cloud (1 / 2 * 2 ^ k) None = Inr (code, m0, l)
                               \<and> length m0 < 2"
      by blast
  qed
  note thm1 = draw_retries_doubling_then_fallback [of 1 example_line "[]" 1 None,
                unfolded Let_def, THEN conjunct1, rule_format]
  note thm2 = draw_retries_doubling_then_fallback [of 1 example_line example_cloud "1 / 2" None,
                unfolded Let_def, THEN conjunct2, rule_format,
                of 2 EXIT_SUCCESS "[(- 3, 0, 0), (- 3, 0, 0)]"
                   "example_line\<lparr>extents := Some [(- 3, 0, 0), (- 3, 0, 0)]\<rparr>"]
  from thm1 f1 have r1: "draw example_line [] 1 None 1 =
     Inr \<lparr> drawn = Some ((0, 0, 0), (1 / 10, 0, 0)), warned = True, line_after = example_line \<rparr>"
    by (simp add: example_line_def)
  from thm2 f2 example_cloud_succeeds_at_2 have r2: "draw example_line example_cloud (1 / 2) None 1 =
     Inr \<lparr> drawn = Some ((- 3, 0, 0), (- 3, 0, 0)), warned = False,
           line_after = example_line\<lparr>extents := Some [(- 3, 0, 0), (- 3, 0, 0)]\<rparr> \<rparr>"
    by simp
  from r1 r2 show ?thesis by simp
qed

text \<open>
  Claim C2. The retry part of the claim holds (see above). The fallback does not produce
  the unit-length segment the claim states and the source's own warning announces
  ("...drawing unit"): with a unit direction, no point in the cloud and the default
  stretch 1, all 10 attempts fail and the segment handed to the visualizer runs from the
  position to one tenth of the direction beyond it, so its length is 1/10 and not 1.
\<close>

theorem draw_fallback_not_unit_length:
  "draw example_line [] 1 None 1 =
     Inr \<lparr> drawn = Some ((0, 0, 0), (1 / 10, 0, 0)), warned = True, line_after = example_line \<rparr>
   \<and> norm3 (vsub (1 / 10, 0, 0) (0, 0, 0)) \<noteq> 1"
proof -
  have "\<exists>err mm'. draw_loop example_line [] None [] 0 1 = Inr (err, mm', max_it, example_line) \<and> length mm' < 2"
    by (rule draw_loop_all_fail [where n = 10]) (simp_all add: max_it_def example_empty_cloud_fails)
  then obtain err mm' where "draw_loop example_line [] None [] 0 1 = Inr (err, mm', max_it, example_line)"
    by blast
  then have "draw example_line [] 1 None 1 =
     Inr \<lparr> drawn = Some ((0, 0, 0), (1 / 10, 0, 0)), warned = True, line_after = example_line \<rparr>"
    by (simp add: draw_def Let_def draw_endpoints_def example_line_def)
  moreover have "norm3 (vsub (1 / 10, 0, 0) (0, 0, 0)) \<noteq> 1"
    by (simp add: norm3_def)
  ultimately show ?thesis by simp
qed

section \<open>Properties of significance scoring\<close>

text \<open>
  Claim C1. On an empty population (no point at all, or an explicit empty index subset)
  the claim promises a negative sentinel. The source writes \<open>- 1\<close> into the output and
  then falls through: the output is overwritten with 0 and its first coefficient with the
  (square root of the) first eigenvalue, whatever the eigen decomposition returns. In the
  default, non-squared form the result is never the sentinel.
\<close>

theorem getSpatialSignificance_empty_population:
  "getSpatialSignificance eigenDecomposition this [x] [] None False =
     (if fst (eigenDecomposition [] []) < 0 then Inl SqrtOfNegative
      else Inr [sqrt (fst (eigenDecomposition [] []))])
   \<and> getSpatialSignificance eigenDecomposition this [x] points (Some []) False =
     (if fst (eigenDecomposition points []) < 0 then Inl SqrtOfNegative
      else Inr [sqrt (fst (eigenDecomposition points []))])
   \<and> getSpatialSignificance (\<lambda>points pop. (0, 0, 0)) this [x] [] None False = Inr [0]"
  by (simp add: getSpatialSignificance_def getPopulationOf_def setConstant_def Let_def)

section \<open>Properties of candidate generation\<close>

lemma dot_rotateZ: "dot (rotateZ a v) (rotateZ a v) = dot v v"
proof (cases v)
  case (fields x y z)
  have sc: "sin a * sin a + cos a * cos a = 1"
    using sin_cos_squared_add [of a] by (simp add: power2_eq_square)
  have "(cos a * x - sin a * y) * (cos a * x - sin a * y)
        + (sin a * x + cos a * y) * (sin a * x + cos a * y)
        = (sin a * sin a + cos a * cos a) * (x * x + y * y)"
    by (simp only: algebra_simps)
  then show ?thesis
    using fields by (simp add: sc)
qed

lemma norm3_rotateZ: "norm3 (rotateZ a v) = norm3 v"
  by (simp add: norm3_def dot_rotateZ)

text \<open>
  Claim C6. For every valid generation request (the angle index lies inside the angle
  container) \<^verbatim>\<open>generateFrom\<close> returns true and a candidate whose \<open>GID\<close> is that of
  \<open>this\<close>, whose \<open>DIR_GID\<close> is that of \<open>other\<close> and whose \<open>STATUS\<close> is \<open>UNSET\<close>.
\<close>

theorem generateFrom_tags:
  assumes "0 \<le> closest_angle_id" and "closest_angle_id < int (length angles)"
  shows "\<exists>out. generateFrom angleInRad UNSET parent this other closest_angle_id angles angle_multiplier
                  = Inr (True, out)
             \<and> getTag out GID = getTag this GID
             \<and> getTag out DIR_GID = getTag other DIR_GID
             \<and> getTag out STATUS = UNSET"
  using assms
  by (simp add: generateFrom_def Let_def getTag_def setTag_def LinePrimitive_of_def)

theorem generateFrom_tags_witness:
  "(0::int) \<le> 0 \<and> (0::int) < int (length [0::real])
   \<and> (case generateFrom (\<lambda>u v. arccos (dot u v)) (- 1) example_line
             (setTag example_line GID 3) (setTag example_line DIR_GID 7) 0 [0] 1 of
        Inl e \<Rightarrow> False
      | Inr (ok, out) \<Rightarrow> ok \<and> getTag out GID = 3 \<and> getTag out DIR_GID = 7 \<and> getTag out STATUS = - 1)"
  using generateFrom_tags [of 0 "[0]" "\<lambda>u v. arccos (dot u v)" "- 1" example_line
          "setTag example_line GID 3" "setTag example_line DIR_GID 7" 1]
  by (auto simp: getTag_def setTag_def)

lemma dot_vscale_right: "dot u (vscale c v) = c * dot u v"
  by (cases u; cases v) (simp add: algebra_simps)

lemma dot_vscale_both: "dot (vscale c v) (vscale c v) = c * c * dot v v"
  by (cases v) (simp add: algebra_simps)

lemma norm3_vscale: "norm3 (vscale c v) = \<bar>c\<bar> * norm3 v"
  by (simp add: norm3_def dot_vscale_both real_sqrt_mult)

lemma dot_self_nonneg: "0 \<le> dot v v"
  by (cases v) simp

lemma dot_self_zero_iff: "dot v v = 0 \<longleftrightarrow> v = (0, 0, 0)"
  by (cases v) (auto simp: add_nonneg_eq_0_iff)

lemma norm3_pos: "v \<noteq> (0, 0, 0) \<Longrightarrow> 0 < norm3 v"
  using dot_self_nonneg [of v] dot_self_zero_iff [of v]
  by (simp add: norm3_def less_le)

lemma vdiv_as_vscale: "vdiv v k = vscale (1 / k) v"
  by (cases v) simp

lemma norm3_normalized: "v \<noteq> (0, 0, 0) \<Longrightarrow> norm3 (vdiv v (norm3 v)) = 1"
  using norm3_pos [of v] by (simp add: vdiv_as_vscale norm3_vscale)

lemma rotateZ_nonzero: "v \<noteq> (0, 0, 0) \<Longrightarrow> rotateZ a v \<noteq> (0, 0, 0)"
  using norm3_pos [of v] norm3_rotateZ [of a v] by (auto simp: norm3_def)

lemma rotateZ_explicit:
  "rotateZ a v = (case v of (x, y, z) \<Rightarrow> (cos a * x - sin a * y, sin a * x + cos a * y, z))"
  by (cases v) simp

lemma angleInRad_std_scale: "0 < c \<Longrightarrow> angleInRad_std u (vscale c v) = angleInRad_std u v"
  by (simp add: angleInRad_std_def dot_vscale_right norm3_vscale)

text \<open>
  Claim C5. For every valid angle index, every angle multiplier and every \<open>other\<close> whose
  direction is not the zero vector, \<^verbatim>\<open>generateFrom\<close> returns a candidate at the position
  of \<open>this\<close> whose direction has unit length: it is the normalisation of one of the two
  rotations of \<open>other\<close>'s direction about the z axis, by the angle or by its negation, and
  the angular distance of the chosen rotation to \<open>this\<close>'s direction is at most that of the
  rejected one. This holds for every angle function; for every angle function that does
  not depend on the length of its second argument, as the angle between two vectors, the
  same bound holds for the candidate's (normalised) direction itself.
\<close>

theorem generateFrom_unit_and_closer_branch:
  assumes "0 \<le> closest_angle_id" and "closest_angle_id < int (length angles)"
    and "dir other \<noteq> (0, 0, 0)"
  shows
    "let angle = angles ! nat closest_angle_id * angle_multiplier;
         rotated = (\<lambda>a. case dir other of
                           (x, y, z) \<Rightarrow> (cos a * x - sin a * y, sin a * x + cos a * y, z));
         d0 = rotated angle;
         d1 = rotated (- angle)
     in \<exists>out chosen rejected.
          generateFrom angleInRad UNSET parent this other closest_angle_id angles angle_multiplier
            = Inr (True, out)
        \<and> ((chosen = d0 \<and> rejected = d1) \<or> (chosen = d1 \<and> rejected = d0))
        \<and> pos out = pos this
        \<and> dir out = vdiv chosen (norm3 chosen)
        \<and> norm3 (dir out) = 1
        \<and> angleInRad (dir this) chosen \<le> angleInRad (dir this) rejected
        \<and> ((\<forall>u v c. 0 < c \<longrightarrow> angleInRad u (vscale c v) = angleInRad u v)
              \<longrightarrow> angleInRad (dir this) (dir out) \<le> angleInRad (dir this) rejected)"
proof -
  define angle where "angle = angles ! nat closest_angle_id * angle_multiplier"
  define d0 where "d0 = rotateZ angle (dir other)"
  define d1 where "d1 = rotateZ (- angle) (dir other)"
  define chosen where "chosen = (if angleInRad (dir this) d0 > angleInRad (dir this) d1 then d1 else d0)"
  define rejected where "rejected = (if angleInRad (dir this) d0 > angleInRad (dir this) d1 then d0 else d1)"
  define out where "out = setTag (setTag (setTag (LinePrimitive_of parent (pos this) chosen)
                            GID (getTag this GID)) DIR_GID (getTag other DIR_GID)) STATUS UNSET"
  have gen: "generateFrom angleInRad UNSET parent this other closest_angle_id angles angle_multiplier
            = Inr (True, out)"
    using assms(1,2)
    by (simp add: generateFrom_def Let_def out_def chosen_def d0_def d1_def angle_def)
  have nz: "chosen \<noteq> (0, 0, 0)"
    using assms(3) by (simp add: chosen_def d0_def d1_def rotateZ_nonzero)
  have which: "(chosen = d0 \<and> rejected = d1) \<or> (chosen = d1 \<and> rejected = d0)"
    by (simp add: chosen_def rejected_def)
  have po: "pos out = pos this" and dir_out: "dir out = vdiv chosen (norm3 chosen)"
    by (simp_all add: out_def setTag_def LinePrimitive_of_def normalized_def)
  have unit: "norm3 (dir out) = 1"
    by (simp add: dir_out norm3_normalized nz)
  have closer: "angleInRad (dir this) chosen \<le> angleInRad (dir this) rejected"
    by (simp add: chosen_def rejected_def)
  have scaled: "angleInRad (dir this) (dir out) \<le> angleInRad (dir this) rejected"
    if inv: "\<forall>u v c. 0 < c \<longrightarrow> angleInRad u (vscale c v) = angleInRad u v"
  proof -
    have "0 < 1 / norm3 chosen"
      using norm3_pos [OF nz] by simp
    with inv have "angleInRad (dir this) (vscale (1 / norm3 chosen) chosen) = angleInRad (dir this) chosen"
      by blast
    with closer show ?thesis
      by (simp add: dir_out vdiv_as_vscale)
  qed
  have "\<exists>out chosen rejected.
          generateFrom angleInRad UNSET parent this other closest_angle_id angles angle_multiplier
            = Inr (True, out)
        \<and> ((chosen = d0 \<and> rejected = d1) \<or> (chosen = d1 \<and> rejected = d0))
        \<and> pos out = pos this
        \<and> dir out = vdiv chosen (norm3 chosen)
        \<and> norm3 (dir out) = 1
        \<and> angleInRad (dir this) chosen \<le> angleInRad (dir this) rejected
        \<and> ((\<forall>u v c. 0 < c \<longrightarrow> angleInRad u (vscale c v) = angleInRad u v)
              \<longrightarrow> angleInRad (dir this) (dir out) \<le> angleInRad (dir this) rejected)"
    using gen which po dir_out unit closer scaled by blast
  then show ?thesis
    unfolding Let_def d0_def d1_def angle_def rotateZ_explicit .
qed

theorem generateFrom_unit_and_closer_branch_witness:
  "dir (example_line\<lparr>dir := (2, 0, 0)\<rparr>) \<noteq> (0, 0, 0)
   \<and> (case generateFrom angleInRad_std (- 1) example_line
             (example_line\<lparr>dir := (0, 1, 0)\<rparr>) (example_line\<lparr>dir := (2, 0, 0)\<rparr>) 0 [pi / 2] 1 of
        Inl e \<Rightarrow> False
      | Inr (ok, out) \<Rightarrow> ok \<and> dir out = (0, 1, 0) \<and> norm3 (dir out) = 1
          \<and> angleInRad_std (0, 1, 0) (dir out) = 0 \<and> angleInRad_std (0, 1, 0) (0, - 2, 0) = pi
          \<and> angleInRad_std (0, 1, 0) (dir out) \<le> angleInRad_std (0, 1, 0) (0, - 2, 0))
   \<and> (case generateFrom angleInRad_std (- 1) example_line
             (example_line\<lparr>dir := (0, 1, 0)\<rparr>) (example_line\<lparr>dir := (2, 0, 0)\<rparr>) 0 [pi / 2] (- 1) of
        Inl e \<Rightarrow> False
      | Inr (ok, out) \<Rightarrow> ok \<and> dir out = (0, 1, 0) \<and> norm3 (dir out) = 1
          \<and> angleInRad_std (0, 1, 0) (dir out) \<le> angleInRad_std (0, 1, 0) (0, - 2, 0))"
proof -
  have nz: "dir (example_line\<lparr>dir := (2, 0, 0)\<rparr>) \<noteq> (0, 0, 0)"
    by simp
  have inv: "\<forall>u v c. 0 < c \<longrightarrow> angleInRad_std u (vscale c v) = angleInRad_std u v"
    by (simp add: angleInRad_std_scale)
  have idx: "(0::int) \<le> 0" "(0::int) < int (length [pi / 2])"
    by simp_all
  note g1 = generateFrom_unit_and_closer_branch [OF idx nz,
              where angleInRad = angleInRad_std and UNSET = "- 1" and parent = example_line
                and this = "example_line\<lparr>dir := (0, 1, 0)\<rparr>" and angle_multiplier = 1]
  note g2 = generateFrom_unit_and_closer_branch [OF idx nz,
              where angleInRad = angleInRad_std and UNSET = "- 1" and parent = example_line
                and this = "example_line\<lparr>dir := (0, 1, 0)\<rparr>" and angle_multiplier = "- 1"]
  have e1: "dir (snd (projr (generateFrom angleInRad_std (- 1) example_line
             (example_line\<lparr>dir := (0, 1, 0)\<rparr>) (example_line\<lparr>dir := (2, 0, 0)\<rparr>) 0 [pi / 2] 1)))
            = (0, 1, 0)"
    by (simp add: generateFrom_def Let_def angleInRad_std_def norm3_def normalized_def
          LinePrimitive_of_def setTag_def getTag_def example_line_def)
  have e2: "dir (snd (projr (generateFrom angleInRad_std (- 1) example_line
             (example_line\<lparr>dir := (0, 1, 0)\<rparr>) (example_line\<lparr>dir := (2, 0, 0)\<rparr>) 0 [pi / 2] (- 1))))
            = (0, 1, 0)"
    by (simp add: generateFrom_def Let_def angleInRad_std_def norm3_def normalized_def
          LinePrimitive_of_def setTag_def getTag_def example_line_def)
  have a0: "angleInRad_std (0, 1, 0) (0, 1, 0) = 0" and a1: "angleInRad_std (0, 1, 0) (0, - 2, 0) = pi"
    by (simp_all add: angleInRad_std_def norm3_def)
  from g1 g2 inv nz e1 e2 a0 a1 show ?thesis
    by (auto simp: Let_def norm3_def)
qed

section \<open>Properties of correspondence matching\<close>

subsection \<open>The example, evaluated\<close>

lemma example_calc_costs:
  "calc_costs example_primsA example_primsB [] =
     [(((0, 0), (0, 0)), 5), (((0, 0), (0, 1)), 2), (((1, 0), (0, 0)), 0), (((1, 0), (0, 1)), 7)]"
  by (simp add: calc_costs_def example_primsA_def example_primsB_def example_line_def
        estimateDistance_def norm3_def enumerate_eq_zip)

lemma example_sorted_cost_list:
  "sorted_cost_list (calc_costs example_primsA example_primsB []) =
     [(0, ((1, 0), (0, 0))), (2, ((0, 0), (0, 1))), (5, ((0, 0), (0, 0))), (7, ((1, 0), (0, 1)))]"
  by (simp add: example_calc_costs sorted_cost_list_def)

lemma example_correspCli:
  "correspCli example_primsA example_primsB [] =
     \<lparr> taken_primsA = {(0, 0), (1, 0)}, taken_primsB = {(0, 1), (0, 0)},
       corresps = [((0, 0), (0, 1)), ((1, 0), (0, 0))],
       chose = [(0, ((1, 0), (0, 0))), (2, ((0, 0), (0, 1)))],
       duplicate_choice = [] \<rparr>"
  by (simp add: correspCli_def example_sorted_cost_list calculate_correspondences_def
        assign_step_def assign_init_def std_map_find_def Let_def)

subsection \<open>The map model\<close>

lemma map_of_std_map_assign: "map_of (std_map_assign k v m) = (map_of m)(k \<mapsto> v)"
  by (induction m) auto

lemma keys_std_map_assign: "fst ` set (std_map_assign k v m) = insert k (fst ` set m)"
proof (induction m)
  case Nil
  then show ?case by simp
next
  case (Cons e m)
  obtain k' v' where e: "e = (k', v')" by (cases e)
  from Cons.IH show ?case
    by (simp add: e insert_commute)
qed

lemma set_std_map_assign_fresh:
  "k \<notin> fst ` set m \<Longrightarrow> set (std_map_assign k v m) = insert (k, v) (set m)"
  by (induction m) (auto simp: image_iff split: if_splits)

lemma sorted_std_map_assign:
  "sorted_wrt (<) (map fst m) \<Longrightarrow> sorted_wrt (<) (map fst (std_map_assign k v m))"
proof (induction m)
  case Nil
  then show ?case by simp
next
  case (Cons e m)
  obtain k' v' where e: "e = (k', v')" by (cases e)
  from Cons.prems e have tl: "sorted_wrt (<) (map fst m)" and hd: "\<forall>x\<in>set m. k' < fst x"
    by simp_all
  have "\<forall>x\<in>fst ` set (std_map_assign k v m). k' < x" if "k' < k"
    using that hd by (auto simp: keys_std_map_assign)
  with Cons.IH [OF tl] tl hd show ?case
    by (auto simp: e)
qed

subsection \<open>The assignment scan\<close>

lemma assign_inv_init: "assign_inv assign_init"
  by (simp add: assign_inv_def assign_init_def)

lemma length_std_map_assign_fresh:
  "k \<notin> fst ` set m \<Longrightarrow> length (std_map_assign k v m) = Suc (length m)"
  by (induction m) (auto simp: image_iff split: if_splits)

lemma distinct_values_std_map_assign:
  "k \<notin> fst ` set m \<Longrightarrow> v \<notin> snd ` set m \<Longrightarrow> distinct (map snd m)
     \<Longrightarrow> distinct (map snd (std_map_assign k v m))"
proof (induction m)
  case Nil
  then show ?case by simp
next
  case (Cons e m)
  obtain k' v' where e: "e = (k', v')" by (cases e)
  from Cons.prems e have fresh: "k \<notin> fst ` set m" "v \<notin> snd ` set m" "distinct (map snd m)"
    and ne: "k \<noteq> k'" "v \<noteq> v'" and v': "v' \<notin> snd ` set m"
    by (auto simp: image_iff)
  have "snd ` set (std_map_assign k v m) = insert v (snd ` set m)"
    by (simp add: set_std_map_assign_fresh fresh(1))
  with Cons.IH [OF fresh] fresh ne v' show ?case
    by (auto simp: e image_iff)
qed

lemma assign_step_inv: "assign_inv st \<Longrightarrow> assign_inv (assign_step e st)"
proof -
  assume inv: "assign_inv st"
  obtain c a b where e: "e = (c, (a, b))" by (cases e) auto
  show ?thesis
  proof (cases "a \<notin> taken_primsA st \<and> b \<notin> taken_primsB st")
    case False
    with inv show ?thesis by (auto simp: assign_step_def e Let_def)
  next
    case True
    with inv have fa: "a \<notin> fst ` set (corresps st)" and fb: "b \<notin> snd ` set (corresps st)"
      by (simp_all add: assign_inv_def)
    from fa have nofind: "std_map_find (corresps st) a = None"
      by (simp add: std_map_find_def map_of_eq_None_iff)
    have st': "assign_step e st =
        st\<lparr> taken_primsA := insert a (taken_primsA st),
            taken_primsB := insert b (taken_primsB st),
            corresps := std_map_assign a b (corresps st),
            chose := chose st @ [e],
            duplicate_choice := duplicate_choice st \<rparr>"
      using True nofind by (simp add: assign_step_def e Let_def)
    from inv fa fb show ?thesis
      unfolding st' assign_inv_def
      by (simp add: set_std_map_assign_fresh length_std_map_assign_fresh
            sorted_std_map_assign distinct_values_std_map_assign e)
  qed
qed

lemma fold_assign_step_inv: "assign_inv st \<Longrightarrow> assign_inv (fold assign_step xs st)"
  by (induction xs arbitrary: st) (simp_all add: assign_step_inv)

lemma calculate_correspondences_inv: "assign_inv (calculate_correspondences xs)"
  by (simp add: calculate_correspondences_def fold_assign_step_inv assign_inv_init)

lemma calculate_correspondences_snoc:
  "calculate_correspondences (xs @ [e]) = assign_step e (calculate_correspondences xs)"
  by (simp add: calculate_correspondences_def)

lemma sorted_wrt_less_distinct: "sorted_wrt (<) (xs :: 'a::linorder list) \<Longrightarrow> distinct xs"
  by (induction xs) auto

text \<open>
  Claim C8. The scan accepts the next entry of the cost list exactly when neither its
  A identity nor its B identity occurs in a pair accepted before: the set of pairs held by
  \<^verbatim>\<open>corresps\<close> is the set of pairs announced as chosen; processing one more entry
  appends it to the chosen entries and adds its pair to \<^verbatim>\<open>corresps\<close> if both identities
  are free, and changes nothing otherwise. Hence the matching is injective on both sides:
  no identity occurs twice as an A key or twice as a B key, after every prefix of the scan
  and in the result of the whole matcher.
\<close>

theorem greedy_scan_accepts_iff_free:
  "let before = calculate_correspondences cost_list;
       after = calculate_correspondences (cost_list @ [(cost, (gidLidA, gidLidB))]);
       free = (gidLidA \<notin> fst ` set (corresps before) \<and> gidLidB \<notin> snd ` set (corresps before))
   in set (corresps before) = snd ` set (chose before)
    \<and> chose after = (if free then chose before @ [(cost, (gidLidA, gidLidB))] else chose before)
    \<and> set (corresps after) =
        (if free then insert (gidLidA, gidLidB) (set (corresps before)) else set (corresps before))
    \<and> distinct (map fst (corresps after)) \<and> distinct (map snd (corresps after))
    \<and> distinct (map fst (corresps (correspCli prims_mapA prims_mapB points)))
    \<and> distinct (map snd (corresps (correspCli prims_mapA prims_mapB points)))"
proof -
  let ?before = "calculate_correspondences cost_list"
  let ?after = "calculate_correspondences (cost_list @ [(cost, (gidLidA, gidLidB))])"
  have ib: "assign_inv ?before" and ia: "assign_inv ?after"
    and ic: "assign_inv (correspCli prims_mapA prims_mapB points)"
    by (simp_all add: calculate_correspondences_inv correspCli_def)
  have step: "?after = assign_step (cost, (gidLidA, gidLidB)) ?before"
    by (rule calculate_correspondences_snoc)
  from ib have tk: "taken_primsA ?before = fst ` set (corresps ?before)"
      "taken_primsB ?before = snd ` set (corresps ?before)"
    and acc: "set (corresps ?before) = snd ` set (chose ?before)"
    by (simp_all add: assign_inv_def)
  have ch: "chose ?after =
      (if gidLidA \<notin> fst ` set (corresps ?before) \<and> gidLidB \<notin> snd ` set (corresps ?before)
       then chose ?before @ [(cost, (gidLidA, gidLidB))] else chose ?before)"
    unfolding step by (simp add: assign_step_def Let_def tk)
  have cs: "set (corresps ?after) =
      (if gidLidA \<notin> fst ` set (corresps ?before) \<and> gidLidB \<notin> snd ` set (corresps ?before)
       then insert (gidLidA, gidLidB) (set (corresps ?before)) else set (corresps ?before))"
    unfolding step by (simp add: assign_step_def Let_def tk set_std_map_assign_fresh)
  from ia ic have d: "distinct (map fst (corresps ?after))" "distinct (map snd (corresps ?after))"
    "distinct (map fst (corresps (correspCli prims_mapA prims_mapB points)))"
    "distinct (map snd (corresps (correspCli prims_mapA prims_mapB points)))"
    by (simp_all add: assign_inv_def sorted_wrt_less_distinct)
  show ?thesis
    unfolding Let_def using acc ch cs d by simp
qed

theorem greedy_scan_accepts_iff_free_witness:
  "chose (calculate_correspondences ([(0, ((1, 0), (0, 0)))] @ [(2, ((0, 0), (0, 1)))])) =
     [(0, ((1, 0), (0, 0))), (2, ((0, 0), (0, 1)))]
   \<and> chose (calculate_correspondences ([(0, ((1, 0), (0, 0)))] @ [(5, ((1, 0), (0, 1)))])) =
     [(0, ((1, 0), (0, 0)))]
   \<and> distinct (map fst (corresps (correspCli example_primsA example_primsB [])))
   \<and> distinct (map snd (corresps (correspCli example_primsA example_primsB [])))"
  using greedy_scan_accepts_iff_free [of "[(0, ((1, 0), (0, 0)))]" 2 "(0, 0)" "(0, 1)"
          example_primsA example_primsB "[]"]
        greedy_scan_accepts_iff_free [of "[(0, ((1, 0), (0, 0)))]" 5 "(1, 0)" "(0, 1)"
          example_primsA example_primsB "[]"]
  by (simp add: Let_def calculate_correspondences_def assign_step_def assign_init_def
        std_map_find_def)

text \<open>
  Claim C3 (amended). The rows the matcher writes are exactly the accepted pairs, one row
  each, in ascending order of the A identity \<open>(gidA, lidA)\<close>: the output is the iteration of
  the \<^verbatim>\<open>std::map\<close> \<^verbatim>\<open>corresps\<close>, not the order of acceptance.
\<close>

theorem corresp_rows_in_key_order:
  "let st = correspCli prims_mapA prims_mapB points;
       rows = print_rows (corresps st)
   in sorted_wrt (<) (map (\<lambda>(gidA, lidA, gidB, lidB). (gidA, lidA)) rows)
    \<and> set rows = (\<lambda>(cost, (gidA, lidA), (gidB, lidB)). (gidA, lidA, gidB, lidB)) ` set (chose st)
    \<and> length rows = length (chose st)"
proof -
  let ?st = "correspCli prims_mapA prims_mapB points"
  have inv: "assign_inv ?st"
    by (simp add: calculate_correspondences_inv correspCli_def)
  have keys: "map (\<lambda>(gidA, lidA, gidB, lidB). (gidA, lidA)) (print_rows (corresps ?st))
                = map fst (corresps ?st)"
    by (simp add: print_rows_def case_prod_unfold)
  have "set (print_rows (corresps ?st)) =
          (\<lambda>(a, b). (fst a, snd a, fst b, snd b)) ` snd ` set (chose ?st)"
    using inv by (simp add: print_rows_def assign_inv_def)
  also have "\<dots> = (\<lambda>(cost, (gidA, lidA), (gidB, lidB)). (gidA, lidA, gidB, lidB)) ` set (chose ?st)"
    by (force simp: image_iff)
  finally have rows: "set (print_rows (corresps ?st)) =
      (\<lambda>(cost, (gidA, lidA), (gidB, lidB)). (gidA, lidA, gidB, lidB)) ` set (chose ?st)" .
  from inv have "sorted_wrt (<) (map fst (corresps ?st))"
    and "length (print_rows (corresps ?st)) = length (chose ?st)"
    by (simp_all add: assign_inv_def print_rows_def)
  with keys rows show ?thesis
    unfolding Let_def by simp
qed

theorem corresp_rows_in_key_order_witness:
  "print_rows (corresps (correspCli example_primsA example_primsB [])) = [(0, 0, 0, 1), (1, 0, 0, 0)]
   \<and> length (chose (correspCli example_primsA example_primsB [])) = 2"
  using corresp_rows_in_key_order [of example_primsA example_primsB "[]"]
  by (simp add: example_correspCli print_rows_def Let_def)

text \<open>
  Two patches in A, one patch with two primitives in B: the pair accepted first (cost 0)
  has the larger A identity, so it is written second, after the pair of cost 2.
\<close>

theorem corresp_rows_not_in_acceptance_order:
  "print_rows (corresps (correspCli example_primsA example_primsB [])) = [(0, 0, 0, 1), (1, 0, 0, 0)]
   \<and> chose (correspCli example_primsA example_primsB []) =
       [(0, ((1, 0), (0, 0))), (2, ((0, 0), (0, 1)))]
   \<and> print_rows (corresps (correspCli example_primsA example_primsB []))
       \<noteq> print_rows (map snd (chose (correspCli example_primsA example_primsB [])))"
  by (simp add: example_correspCli print_rows_def)

subsection \<open>The cost map and the cost list\<close>

lemma fold_over_concat: "fold f (concat xss) = fold (fold f) xss"
  by (induction xss) simp_all

lemma fold_flat_prims:
  "fold g (flat_prims m) =
     fold (\<lambda>(gid, patch). fold (\<lambda>(lid, prim). g ((gid, int lid), prim)) (enumerate 0 patch)) m"
  by (simp add: flat_prims_def fold_over_concat fold_map comp_def case_prod_unfold)

lemma calc_costs_flat:
  "calc_costs prims_mapA prims_mapB points =
     fold (\<lambda>(idA, primA).
        fold (\<lambda>(idB, primB).
            std_map_assign (idA, idB) (estimateDistance primA primB points PNT_USER_ID1 PNT_GID))
          (flat_prims prims_mapB))
       (flat_prims prims_mapA) []"
  by (simp add: calc_costs_def fold_flat_prims case_prod_unfold)

lemma fold_assign_inner:
  "map_of (fold (\<lambda>(idB, primB). std_map_assign (idA, idB) (f primB)) ys m) (ka, kb) =
     (if ka = idA then (case map_of (rev ys) kb of Some b \<Rightarrow> Some (f b) | None \<Rightarrow> map_of m (ka, kb))
      else map_of m (ka, kb))"
proof (induction ys arbitrary: m)
  case Nil
  then show ?case by simp
next
  case (Cons y ys)
  obtain idB primB where y: "y = (idB, primB)" by (cases y)
  show ?case
    by (simp add: y Cons.IH map_of_std_map_assign map_add_def split: option.splits)
qed

lemma fold_assign_outer:
  "map_of (fold (\<lambda>(idA, primA). fold (\<lambda>(idB, primB). std_map_assign (idA, idB) (f primA primB)) ys) xs m)
      (ka, kb) =
     (case map_of (rev xs) ka of
        Some a \<Rightarrow> (case map_of (rev ys) kb of Some b \<Rightarrow> Some (f a b) | None \<Rightarrow> map_of m (ka, kb))
      | None \<Rightarrow> map_of m (ka, kb))"
proof (induction xs arbitrary: m)
  case Nil
  then show ?case by simp
next
  case (Cons x xs)
  obtain idA primA where x: "x = (idA, primA)" by (cases x)
  show ?case
    by (simp add: x Cons.IH fold_assign_inner map_add_def split: option.splits)
qed

lemma flat_prims_member:
  assumes "(gid, patch) \<in> set m" and "lid < length patch"
  shows "((gid, int lid), patch ! lid) \<in> set (flat_prims m)"
proof -
  have "(lid, patch ! lid) \<in> set (enumerate 0 patch)"
    using assms(2) by (simp add: in_set_enumerate_eq)
  then have "((gid, int lid), patch ! lid)
      \<in> set (map (\<lambda>(lid, prim). ((gid, int lid), prim)) (enumerate 0 patch))"
    by force
  with assms(1) show ?thesis
    unfolding flat_prims_def by force
qed

lemma flat_prims_keys:
  "map fst (flat_prims m) =
     concat (map (\<lambda>(gid, patch). map (\<lambda>lid. (gid, int lid)) [0..<length patch]) m)"
  by (induction m) (auto simp: flat_prims_def enumerate_eq_zip map_concat comp_def case_prod_unfold
       intro!: nth_equalityI)

lemma flat_prims_distinct:
  "distinct (map fst m) \<Longrightarrow> distinct (map fst (flat_prims m))"
proof (induction m)
  case Nil
  then show ?case by (simp add: flat_prims_def)
next
  case (Cons e m)
  obtain gid patch where e: "e = (gid, patch)" by (cases e)
  have split: "map fst (flat_prims (e # m)) =
      map (\<lambda>lid. (gid, int lid)) [0..<length patch] @ map fst (flat_prims m)"
    by (simp add: flat_prims_keys e)
  have d1: "distinct (map (\<lambda>lid. (gid, int lid)) [0..<length patch])"
    by (simp add: distinct_map inj_on_def)
  have d2: "distinct (map fst (flat_prims m))"
    using Cons by simp
  have "fst ` set (map fst (flat_prims m)) \<subseteq> fst ` set m"
    by (force simp: flat_prims_keys)
  with Cons.prems e have disj: "set (map (\<lambda>lid. (gid, int lid)) [0..<length patch])
      \<inter> set (map fst (flat_prims m)) = {}"
    by (auto simp: image_iff) force
  from d1 d2 disj show ?case
    unfolding split by simp
qed

lemma map_of_rev_distinct:
  "distinct (map fst xs) \<Longrightarrow> (k, v) \<in> set xs \<Longrightarrow> map_of (rev xs) k = Some v"
  by (rule map_of_is_SomeI) (simp_all add: rev_map [symmetric])

lemma calc_costs_lookup:
  assumes "distinct (map fst prims_mapA)" and "distinct (map fst prims_mapB)"
    and "(gidA, patchA) \<in> set prims_mapA" and "lidA < length patchA"
    and "(gidB, patchB) \<in> set prims_mapB" and "lidB < length patchB"
  shows "map_of (calc_costs prims_mapA prims_mapB points) ((gidA, int lidA), (gidB, int lidB)) =
           Some (estimateDistance (patchA ! lidA) (patchB ! lidB) points PNT_USER_ID1 PNT_GID)"
proof -
  have a: "map_of (rev (flat_prims prims_mapA)) (gidA, int lidA) = Some (patchA ! lidA)"
    by (rule map_of_rev_distinct [OF flat_prims_distinct [OF assms(1)] flat_prims_member [OF assms(3,4)]])
  have b: "map_of (rev (flat_prims prims_mapB)) (gidB, int lidB) = Some (patchB ! lidB)"
    by (rule map_of_rev_distinct [OF flat_prims_distinct [OF assms(2)] flat_prims_member [OF assms(5,6)]])
  show ?thesis
    unfolding calc_costs_flat
    by (simp add: fold_assign_outer
          [where f = "\<lambda>primA primB. estimateDistance primA primB points PNT_USER_ID1 PNT_GID"] a b)
qed

lemma fold_assign_inner_sorted:
  "sorted_wrt (<) (map fst s) \<Longrightarrow>
   sorted_wrt (<) (map fst (fold (\<lambda>(idB, primB). std_map_assign (idA, idB) (f primB)) ys s))"
  by (induction ys arbitrary: s) (auto simp: sorted_std_map_assign)

lemma fold_assign_outer_sorted:
  "sorted_wrt (<) (map fst s) \<Longrightarrow>
   sorted_wrt (<) (map fst
      (fold (\<lambda>(idA, primA). fold (\<lambda>(idB, primB). std_map_assign (idA, idB) (f primA primB)) ys) xs s))"
  by (induction xs arbitrary: s) (auto simp: fold_assign_inner_sorted)

lemma calc_costs_sorted_keys:
  "sorted_wrt (<) (map fst (calc_costs prims_mapA prims_mapB points))"
  unfolding calc_costs_flat
  by (rule fold_assign_outer_sorted
        [where f = "\<lambda>primA primB. estimateDistance primA primB points PNT_USER_ID1 PNT_GID"])
     simp

text \<open>
  Claim C9. For primitive maps with distinct group ids (they are \<^verbatim>\<open>std::map\<close>s) and every
  pair of a primitive \<open>a\<close> of A and a primitive \<open>b\<close> of B, the cost stored under the key
  \<open>((gidA, lidA), (gidB, lidB))\<close> is the Euclidean distance between the two positions, and
  the entry is in the cost list. The cost list holds one entry per key of the cost map and
  is sorted ascending by cost, entries of equal cost by the order of the key (the
  lexicographic order of the pair of identity pairs).
\<close>

theorem costs_are_anchor_distances_and_sorted:
  assumes "distinct (map fst prims_mapA)" and "distinct (map fst prims_mapB)"
    and "(gidA, patchA) \<in> set prims_mapA" and "lidA < length patchA"
    and "(gidB, patchB) \<in> set prims_mapB" and "lidB < length patchB"
  shows
    "let costs = calc_costs prims_mapA prims_mapB points;
         cost_list = sorted_cost_list costs;
         key = ((gidA, int lidA), (gidB, int lidB));
         distance = norm3 (vsub (pos (patchA ! lidA)) (pos (patchB ! lidB)))
     in std_map_find costs key = Some distance
      \<and> (distance, key) \<in> set cost_list
      \<and> distinct (map fst costs)
      \<and> set cost_list = (\<lambda>(key, cost). (cost, key)) ` set costs
      \<and> (\<forall>i j. i < j \<and> j < length cost_list \<longrightarrow>
            fst (cost_list ! i) < fst (cost_list ! j)
          \<or> (fst (cost_list ! i) = fst (cost_list ! j) \<and> snd (cost_list ! i) \<le> snd (cost_list ! j)))"
proof -
  let ?costs = "calc_costs prims_mapA prims_mapB points"
  let ?cost_list = "sorted_cost_list ?costs"
  let ?key = "((gidA, int lidA), (gidB, int lidB))"
  let ?distance = "norm3 (vsub (pos (patchA ! lidA)) (pos (patchB ! lidB)))"
  have look: "std_map_find ?costs ?key = Some ?distance"
    using calc_costs_lookup [OF assms, of points]
    by (simp add: std_map_find_def estimateDistance_def)
  have elems: "set ?cost_list = (\<lambda>(key, cost). (cost, key)) ` set ?costs"
    by (simp add: sorted_cost_list_def)
  from look have "(?key, ?distance) \<in> set ?costs"
    by (simp add: std_map_find_def map_of_SomeD)
  then have mem: "(?distance, ?key) \<in> set ?cost_list"
    unfolding elems by force
  have dist: "distinct (map fst ?costs)"
    by (rule sorted_wrt_less_distinct [OF calc_costs_sorted_keys])
  have srt: "sorted ?cost_list"
    by (simp add: sorted_cost_list_def)
  have ord: "fst (?cost_list ! i) < fst (?cost_list ! j)
          \<or> (fst (?cost_list ! i) = fst (?cost_list ! j) \<and> snd (?cost_list ! i) \<le> snd (?cost_list ! j))"
    if "i < j" and "j < length ?cost_list" for i j
  proof -
    from that have "?cost_list ! i \<le> ?cost_list ! j"
      by (intro sorted_nth_mono [OF srt]) simp_all
    then show ?thesis
      by (auto simp: less_eq_prod_def)
  qed
  show ?thesis
    unfolding Let_def using look mem dist elems ord by blast
qed

theorem costs_are_anchor_distances_and_sorted_witness:
  "distinct (map fst example_primsA) \<and> distinct (map fst example_primsB)
   \<and> std_map_find (calc_costs example_primsA example_primsB []) ((1, 0), (0, 1)) = Some 7
   \<and> sorted_cost_list (calc_costs example_primsA example_primsB []) =
       [(0, ((1, 0), (0, 0))), (2, ((0, 0), (0, 1))), (5, ((0, 0), (0, 0))), (7, ((1, 0), (0, 1)))]"
proof -
  have h: "distinct (map fst example_primsA)" "distinct (map fst example_primsB)"
    "(1, [example_line\<lparr>pos := (0, 0, 0)\<rparr>]) \<in> set example_primsA"
    "0 < length [example_line\<lparr>pos := (0, 0, 0)\<rparr>]"
    "(0, [example_line\<lparr>pos := (0, 0, 0)\<rparr>, example_line\<lparr>pos := (7, 0, 0)\<rparr>]) \<in> set example_primsB"
    "1 < length [example_line\<lparr>pos := (0, 0, 0)\<rparr>, example_line\<lparr>pos := (7, 0, 0)\<rparr>]"
    by (simp_all add: example_primsA_def example_primsB_def)
  from costs_are_anchor_distances_and_sorted [OF h, of "[]"]
  have "std_map_find (calc_costs example_primsA example_primsB []) ((1, 0), (0, 1)) = Some 7"
    by (simp add: Let_def norm3_def)
  with h(1,2) show ?thesis
    by (simp add: example_sorted_cost_list)
qed

end
